theory Spec2Isabelle
  imports Complex_Main "HOL-Library.Monad_Syntax" "HOL-Library.Log_Nat"
begin

unbundle bit_operations_syntax

section \<open>Numbers, typed arrays and remainders\<close>

text \<open>
  The engine computes with JavaScript numbers.  A signal value is modelled as a
  \<open>real option\<close>: \<open>Some r\<close> is the number \<open>r\<close>, \<open>None\<close> is \<open>NaN\<close> (which is
  also what \<open>undefined\<close>, the result of reading a typed array out of range,
  becomes in arithmetic).  Every arithmetic operation of the source propagates
  \<open>NaN\<close>, every comparison with \<open>NaN\<close> is false, and \<open>Math.min\<close>, \<open>Math.max\<close>
  and \<open>Math.abs\<close> return \<open>NaN\<close> on \<open>NaN\<close>; this is the option monad.
  Arithmetic on numbers is exact real arithmetic: rounding to double or
  single precision and overflow are not modelled.  Parameters, coefficients
  and the sampling rate are numbers (never \<open>NaN\<close>) and the sampling rate is
  positive.  The reals have one zero: where the code divides by a value that
  may be zero, the sign of that zero is carried beside the value.
\<close>

type_synonym num = "real option"

text \<open>The \<open>%\<close> operator on integers: the sign follows the dividend, a zero divisor gives \<open>NaN\<close>.\<close>

definition js_rem :: "int \<Rightarrow> int \<Rightarrow> int option" where
  "js_rem a b = (if b = 0 then None else Some (sgn a * (\<bar>a\<bar> mod \<bar>b\<bar>)))"

text \<open>\<open>new Float32Array(n)\<close>, \<open>buffer[i]\<close> as a value and \<open>buffer[i] = v\<close>: a read out of
  range is \<open>undefined\<close>, a write out of range is ignored.\<close>

definition newFloat32Array :: "nat \<Rightarrow> num list" where
  "newFloat32Array n = replicate n (Some 0)"

definition buf_get :: "num list \<Rightarrow> int \<Rightarrow> num" where
  "buf_get b i = (if 0 \<le> i \<and> i < int (length b) then b ! nat i else None)"

definition buf_set :: "num list \<Rightarrow> int option \<Rightarrow> num \<Rightarrow> num list" where
  "buf_set b io v =
     (case io of
        None \<Rightarrow> b
      | Some i \<Rightarrow> if 0 \<le> i \<and> i < int (length b) then b[nat i := v] else b)"

text \<open>The result of a division whose divisor may be zero.  JavaScript has two zeros and
  the reals have one: \<open>negZero\<close> says that a divisor \<open>0\<close> stands for \<open>-0\<close>, and is not read
  for any other divisor.  A non-zero number over \<open>+0\<close> is the infinity of its own sign, over
  \<open>-0\<close> the infinity of the opposite sign, and a zero over a zero is \<open>NaN\<close>.\<close>

datatype ext = Fin real | PInf | NInf | NaN

definition js_div :: "real \<Rightarrow> real \<Rightarrow> bool \<Rightarrow> ext" where
  "js_div a b negZero =
     (if b \<noteq> 0 then Fin (a / b)
      else if a = 0 then NaN
      else if (0 < a) \<noteq> negZero then PInf else NInf)"

text \<open>\<open>Math.min(Math.pow(10, x), c)\<close>: \<open>10\<^sup>\<infinity> = \<infinity>\<close>, \<open>10\<^sup>-\<^sup>\<infinity> = 0\<close>.\<close>

fun pow10_min :: "ext \<Rightarrow> real \<Rightarrow> num" where
  "pow10_min (Fin x) c = Some (min (10 powr x) c)"
| "pow10_min PInf c = Some c"
| "pow10_min NInf c = Some (min 0 c)"
| "pow10_min NaN c = None"

section \<open>The engine state\<close>

text \<open>The parameter object.  Its numbers are reals; \<open>decay\<close> is the one field the code divides
  by, so the sign of a zero there is kept beside it: \<open>decayNegZero\<close> says that a \<open>decay\<close> of
  \<open>0\<close> is \<open>-0\<close>, and means nothing for any other \<open>decay\<close>.\<close>

record params =
  mix :: real
  preDelayMs :: real
  decay :: real
  decayNegZero :: bool
  size_prm :: real
  diffusion :: real
  lowCutHz :: real
  highCutHz :: real
  color :: real
  modRate :: real
  modDepth :: real
  stereoWidth :: real
  vintage :: real
  mode :: real

record delay =
  buffer :: "num list"
  size_smp :: int
  gain :: real
  index :: "int option"

record apf =
  buffer :: "num list"
  size_smp :: int
  index :: "int option"
  gain :: real
  modPhase :: real
  modDepth :: real

record line =
  buffer :: "num list"
  size_smp :: int
  baseSize :: int
  index :: "int option"
  dampCoeff :: real
  dampState :: num
  hpCoeff :: real
  hpState :: num
  modPhase :: real
  modDepth :: real

record lfo =
  phase :: real
  rate :: real
  amp :: real

record onepole =
  coeff :: real
  stateL :: num
  stateR :: num

text \<open>\<open>fdnMatrix s i j\<close> is \<open>this.fdnMatrix[i][j]\<close>; the matrix is built once with
  eight rows of eight entries and only read afterwards.  \<open>lfos\<close> has four entries
  and \<open>fdnLines\<close> eight from construction on.\<close>

record engine =
  params :: params
  maxPreDelay :: int
  preDelayBuffer :: "num list"
  preDelayIndex :: "int option"
  earlyDelays :: "delay list"
  earlyDelaysR :: "delay list"
  diffusionA :: "apf list"
  diffusionAR :: "apf list"
  diffusionB :: "apf list"
  diffusionBR :: "apf list"
  fdnLines :: "line list"
  fdnMatrix :: "nat \<Rightarrow> nat \<Rightarrow> real"
  fdnFeedback :: num
  lfos :: "lfo list"
  outputLP :: onepole
  outputHP :: onepole
  inputHP :: onepole
  safetyThreshold :: real
  safetyGain :: real
  noiseGen :: nat

datatype error = TypeError

section \<open>Parameter update\<close>

record modePreset =
  sizeScale :: real
  diffGain :: real
  dampBase :: real
  hpBase :: real

definition modes :: "modePreset list" where
  "modes =
     [\<lparr>sizeScale = 0.9, diffGain = 0.75, dampBase = 0.88, hpBase = 0.06\<rparr>,
      \<lparr>sizeScale = 1.4, diffGain = 0.7, dampBase = 0.92, hpBase = 0.04\<rparr>,
      \<lparr>sizeScale = 0.5, diffGain = 0.65, dampBase = 0.85, hpBase = 0.08\<rparr>,
      \<lparr>sizeScale = 2.0, diffGain = 0.8, dampBase = 0.95, hpBase = 0.03\<rparr>]"

text \<open>\<open>modes[Math.floor(p.mode) % modes.length]\<close>; a negative index gives \<open>undefined\<close>,
  and reading \<open>mode.sizeScale\<close> then throws, before anything is assigned.\<close>

definition selectMode :: "real \<Rightarrow> error + modePreset" where
  "selectMode m =
     (case js_rem \<lfloor>m\<rfloor> (int (length modes)) of
        None \<Rightarrow> Inl TypeError
      | Some k \<Rightarrow> if 0 \<le> k \<and> k < int (length modes) then Inr (modes ! nat k) else Inl TypeError)"

definition onePoleCoeff :: "real \<Rightarrow> real \<Rightarrow> real" where
  "onePoleCoeff cutoffHz sr = (let omega = (2.0 * pi * cutoffHz) / sr in 1.0 - exp (- omega))"

text \<open>Lines 248 to 252: the average of the line lengths in seconds, the RT60 formula and
  its clamp.  With no line the average is \<open>0 / 0\<close>.\<close>

definition avgDelaySeconds :: "real \<Rightarrow> line list \<Rightarrow> num" where
  "avgDelaySeconds sr ls =
     (if ls = [] then None
      else Some (real_of_int (foldl (\<lambda>sum l. sum + line.size_smp l) 0 ls) / real (length ls) / sr))"

definition feedbackGain :: "real \<Rightarrow> line list \<Rightarrow> real \<Rightarrow> bool \<Rightarrow> num" where
  "feedbackGain sr ls targetRT60 negZero =
     do { avg \<leftarrow> avgDelaySeconds sr ls;
          pow10_min (js_div (- 3 * avg) targetRT60 negZero) 0.985 }"

definition colorCutoff :: "params \<Rightarrow> real" where
  "colorCutoff p = 2000 + (color p - 0.5) * 8000"

text \<open>\<open>rnd i\<close> is the value of the \<open>i\<close>-th call of \<open>Math.random()\<close> in this update.\<close>

definition updateInternalParams :: "real \<Rightarrow> (nat \<Rightarrow> real) \<Rightarrow> engine \<Rightarrow> error + engine" where
  "updateInternalParams sr rnd s =
     (let p = params s in
      case selectMode (mode p) of
        Inl e \<Rightarrow> Inl e
      | Inr md \<Rightarrow>
         (let sizeMultiplier = (0.3 + size_prm p * 1.7) * sizeScale md;
              lines1 = map (\<lambda>l. l\<lparr>line.size_smp := \<lfloor>real_of_int (baseSize l) * sizeMultiplier\<rfloor>\<rparr>)
                         (fdnLines s);
              dGain = diffusion p * diffGain md;
              fbGain = feedbackGain sr lines1 (decay p) (decayNegZero p);
              dCoeff = onePoleCoeff (highCutHz p) sr * dampBase md;
              lines2 = map (\<lambda>(i, l). l\<lparr>dampCoeff := dCoeff * (0.95 + rnd i * 0.1)\<rparr>)
                         (enumerate 0 lines1);
              hCoeff = onePoleCoeff (lowCutHz p) sr * hpBase md;
              lines3 = map (\<lambda>l. l\<lparr>hpCoeff := hCoeff\<rparr>) lines2;
              mDepth = params.modDepth p * 0.5;
              baseRate = modRate p * 0.003
          in Inr (s\<lparr>
               diffusionA := map (\<lambda>a. a\<lparr>apf.gain := dGain * 0.7, apf.modDepth := mDepth * 2\<rparr>)
                               (diffusionA s),
               diffusionAR := map (\<lambda>a. a\<lparr>apf.gain := dGain * 0.68, apf.modDepth := mDepth * 2\<rparr>)
                               (diffusionAR s),
               diffusionB := map (\<lambda>a. a\<lparr>apf.gain := dGain * 0.6, apf.modDepth := mDepth * 3\<rparr>)
                               (diffusionB s),
               diffusionBR := map (\<lambda>a. a\<lparr>apf.gain := dGain * 0.58, apf.modDepth := mDepth * 3\<rparr>)
                               (diffusionBR s),
               fdnLines := map (\<lambda>l. l\<lparr>line.modDepth := mDepth * 5\<rparr>) lines3,
               fdnFeedback := fbGain,
               inputHP := (inputHP s)\<lparr>coeff := onePoleCoeff (lowCutHz p) sr * 0.05\<rparr>,
               lfos := map (\<lambda>(i, l). l\<lparr>rate := baseRate * (0.8 + real i * 0.2)\<rparr>)
                         (enumerate 0 (lfos s)),
               outputLP := (outputLP s)\<lparr>coeff := onePoleCoeff (max (colorCutoff p) 200) sr\<rparr>
             \<rparr>)))"

text \<open>The engine after a call of the recomputation, which may throw: the exception comes
  before the first assignment and leaves the engine as it was.\<close>

definition after :: "engine \<Rightarrow> error + engine \<Rightarrow> engine" where
  "after s r = (case r of Inl e \<Rightarrow> s | Inr s' \<Rightarrow> s')"

text \<open>The message handler for \<open>updateParams\<close>: \<open>Object.assign(this.params, e.data.params)\<close>
  with the fields the message carries, then the recomputation.  Returns the engine as the
  handler leaves it.  The values of a message are reals, so a \<open>decay\<close> it carries is never
  \<open>-0\<close>.\<close>

datatype field =
  Mix | PreDelayMs | Decay | Size | Diffusion | LowCutHz | HighCutHz | Color
  | ModRate | ModDepth | StereoWidth | Vintage | Mode

fun assign1 :: "params \<Rightarrow> field \<times> real \<Rightarrow> params" where
  "assign1 p (Mix, v) = p\<lparr>mix := v\<rparr>"
| "assign1 p (PreDelayMs, v) = p\<lparr>preDelayMs := v\<rparr>"
| "assign1 p (Decay, v) = p\<lparr>decay := v, decayNegZero := False\<rparr>"
| "assign1 p (Size, v) = p\<lparr>size_prm := v\<rparr>"
| "assign1 p (Diffusion, v) = p\<lparr>diffusion := v\<rparr>"
| "assign1 p (LowCutHz, v) = p\<lparr>lowCutHz := v\<rparr>"
| "assign1 p (HighCutHz, v) = p\<lparr>highCutHz := v\<rparr>"
| "assign1 p (Color, v) = p\<lparr>color := v\<rparr>"
| "assign1 p (ModRate, v) = p\<lparr>modRate := v\<rparr>"
| "assign1 p (ModDepth, v) = p\<lparr>params.modDepth := v\<rparr>"
| "assign1 p (StereoWidth, v) = p\<lparr>stereoWidth := v\<rparr>"
| "assign1 p (Vintage, v) = p\<lparr>vintage := v\<rparr>"
| "assign1 p (Mode, v) = p\<lparr>mode := v\<rparr>"

definition onmessage :: "real \<Rightarrow> (nat \<Rightarrow> real) \<Rightarrow> (field \<times> real) list \<Rightarrow> engine \<Rightarrow> engine" where
  "onmessage sr rnd msg s =
     (let s1 = s\<lparr>params := foldl assign1 (params s) msg\<rparr>
      in after s1 (updateInternalParams sr rnd s1))"

section \<open>Construction\<close>

function popCount_loop :: "nat \<Rightarrow> nat \<Rightarrow> nat" where
  "popCount_loop n count =
     (if n = 0 then count else popCount_loop (drop_bit 1 n) (count + (n AND 1)))"
  by pat_completeness auto
termination
  by (relation "measure fst") (auto simp: drop_bit_eq_div)

definition popCount :: "nat \<Rightarrow> nat" where
  "popCount n = popCount_loop n 0"

definition createHadamardMatrix :: "(nat \<Rightarrow> real) \<Rightarrow> nat \<Rightarrow> nat \<Rightarrow> nat \<Rightarrow> real" where
  "createHadamardMatrix rnd n i j =
     (let scale = 1.0 / sqrt (real n);
          sign = (if popCount (i AND j) AND 1 \<noteq> 0 then - 1 else 1)
      in sign * scale * (0.95 + rnd (i * n + j) * 0.1))"

definition earlyTaps :: "(real \<times> real) list" where
  "earlyTaps = [(5.1, 0.8), (8.7, 0.65), (12.3, 0.55), (17.9, 0.45),
                (22.4, 0.38), (29.6, 0.32), (35.8, 0.25), (41.2, 0.18)]"

definition diffusionADelays :: "int list" where
  "diffusionADelays = [142, 107, 379, 277]"

definition diffusionBDelays :: "int list" where
  "diffusionBDelays = [617, 457, 829]"

definition fdnBaseSizes :: "int list" where
  "fdnBaseSizes = [1453, 1789, 2099, 2423, 2789, 3167, 3547, 3989]"

definition newApf :: "int \<Rightarrow> real \<Rightarrow> real \<Rightarrow> apf" where
  "newApf sz g ph =
     \<lparr>apf.buffer = newFloat32Array (nat (sz + 1)), size_smp = sz, index = Some 0,
      gain = g, modPhase = ph, modDepth = 0\<rparr>"

text \<open>\<open>resizeFDNBuffers\<close>: every line gets at least twice the largest base length.\<close>

definition resizeFDNBuffers :: "line list \<Rightarrow> line list" where
  "resizeFDNBuffers ls =
     (let maxSize = Max (set (map (\<lambda>l. baseSize l * 2) ls))
      in map (\<lambda>l. if int (length (line.buffer l)) < maxSize
                   then l\<lparr>line.buffer :=
                            line.buffer l @ replicate (nat maxSize - length (line.buffer l)) (Some 0)\<rparr>
                   else l) ls)"

definition defaultParams :: params where
  "defaultParams =
     \<lparr>mix = 0.5, preDelayMs = 20, decay = 3.0, decayNegZero = False, size_prm = 0.7,
      diffusion = 0.75,
      lowCutHz = 100, highCutHz = 6000, color = 0.5, modRate = 0.5, modDepth = 0.3,
      stereoWidth = 0.9, vintage = 0.3, mode = 0\<rparr>"

text \<open>The constructor up to its last statement: \<open>initializeBuffers\<close>, the matrix, the
  oscillators and the filters.  \<open>Math.random()\<close> is called 14 times for the diffusion
  filters and 64 times for the matrix.\<close>

definition initialEngine :: "real \<Rightarrow> (nat \<Rightarrow> real) \<Rightarrow> engine" where
  "initialEngine sr rnd =
     \<lparr>params = defaultParams,
      maxPreDelay = \<lfloor>sr * 0.2\<rfloor>,
      preDelayBuffer = newFloat32Array (nat \<lfloor>sr * 0.2\<rfloor>),
      preDelayIndex = Some 0,
      earlyDelays = map (\<lambda>(delayMs, g).
          \<lparr>delay.buffer = newFloat32Array (nat (\<lceil>sr * delayMs / 1000\<rceil> + 1)),
           size_smp = \<lceil>sr * delayMs / 1000\<rceil>, gain = g, index = Some 0\<rparr>) earlyTaps,
      earlyDelaysR = map (\<lambda>(delayMs, g).
          \<lparr>delay.buffer = newFloat32Array (nat (\<lceil>sr * (delayMs * 1.07) / 1000\<rceil> + 1)),
           size_smp = \<lceil>sr * (delayMs * 1.07) / 1000\<rceil>, gain = g * 0.93, index = Some 0\<rparr>) earlyTaps,
      diffusionA = map (\<lambda>(i, sz). newApf sz 0.7 (rnd i * pi * 2)) (enumerate 0 diffusionADelays),
      diffusionAR = map (\<lambda>(i, sz). newApf \<lfloor>real_of_int sz * 1.11\<rfloor> 0.68 (rnd (4 + i) * pi * 2))
                      (enumerate 0 diffusionADelays),
      diffusionB = map (\<lambda>(i, sz). newApf sz 0.6 (rnd (8 + i) * pi * 2)) (enumerate 0 diffusionBDelays),
      diffusionBR = map (\<lambda>(i, sz). newApf \<lfloor>real_of_int sz * 1.13\<rfloor> 0.58 (rnd (11 + i) * pi * 2))
                      (enumerate 0 diffusionBDelays),
      fdnLines = resizeFDNBuffers (map (\<lambda>(i, b).
          \<lparr>line.buffer = newFloat32Array 8192, size_smp = b, baseSize = b, index = Some 0,
           dampCoeff = 0.9, dampState = Some 0, hpCoeff = 0.05, hpState = Some 0,
           modPhase = (real i / 8) * pi * 2, modDepth = 0\<rparr>) (enumerate 0 fdnBaseSizes)),
      fdnMatrix = createHadamardMatrix (\<lambda>k. rnd (14 + k)) 8,
      fdnFeedback = Some 0.7,
      lfos = [\<lparr>phase = 0, rate = 0.37, amp = 1.0\<rparr>,
              \<lparr>phase = pi * 0.5, rate = 0.53, amp = 0.8\<rparr>,
              \<lparr>phase = pi, rate = 0.71, amp = 0.9\<rparr>,
              \<lparr>phase = pi * 1.5, rate = 0.29, amp = 0.7\<rparr>],
      outputLP = \<lparr>coeff = 0.8, stateL = Some 0, stateR = Some 0\<rparr>,
      outputHP = \<lparr>coeff = 0.05, stateL = Some 0, stateR = Some 0\<rparr>,
      inputHP = \<lparr>coeff = 0.05, stateL = Some 0, stateR = Some 0\<rparr>,
      safetyThreshold = 0.95,
      safetyGain = 1.0,
      noiseGen = 0\<rparr>"

definition constructor :: "real \<Rightarrow> (nat \<Rightarrow> real) \<Rightarrow> error + engine" where
  "constructor sr rnd = updateInternalParams sr (\<lambda>k. rnd (78 + k)) (initialEngine sr rnd)"

section \<open>Filters, saturation and dither\<close>

definition processOnePoleLP :: "real \<Rightarrow> num \<Rightarrow> num \<Rightarrow> num" where
  "processOnePoleLP cf state input = do { st \<leftarrow> state; x \<leftarrow> input; Some (st + cf * (x - st)) }"

text \<open>Returns \<open>(output, state)\<close>.\<close>

definition processOnePoleHP :: "real \<Rightarrow> num \<Rightarrow> num \<Rightarrow> num \<times> num" where
  "processOnePoleHP cf state input =
     (let output = do { x \<leftarrow> input; st \<leftarrow> state; Some (x - st) }
      in (output, do { st \<leftarrow> state; y \<leftarrow> output; Some (st + cf * y) }))"

definition softClip :: "real \<Rightarrow> real" where
  "softClip x =
     (let threshold = 1.5 in
      if x > threshold then threshold + (x - threshold) / (1 + ((x - threshold) / 0.5)\<^sup>2)
      else if x < - threshold then - threshold + (x + threshold) / (1 + ((x + threshold) / 0.5)\<^sup>2)
      else x)"

text \<open>A product or sum of integer-valued doubles is the exact result rounded to 53
  significant bits, ties to even.\<close>

definition fl53 :: "nat \<Rightarrow> nat" where
  "fl53 n =
     (if n < 2 ^ 53 then n
      else let e = floorlog 2 n - 53; q = n div 2 ^ e; r = n mod 2 ^ e; h = 2 ^ (e - 1)
           in if r < h \<or> (r = h \<and> even q) then q * 2 ^ e else (q + 1) * 2 ^ e)"

text \<open>\<open>getVintageNoise\<close>: returns the new generator state and the noise value.  \<open>x & 0x7fffffff\<close>
  keeps the low 31 bits of the integer \<open>x\<close>.\<close>

definition getVintageNoise :: "nat \<Rightarrow> nat \<times> real" where
  "getVintageNoise g =
     (let g' = fl53 (fl53 (g * 1103515245) + 12345) AND 0x7fffffff
      in (g', ((real g' / 0x7fffffff) - 0.5) * 0.00001))"

section \<open>Processing one sample\<close>

text \<open>\<open>xs[i]\<close> as a value, for an array of numbers: \<open>undefined\<close> out of range.\<close>

definition nth_opt :: "'a list \<Rightarrow> nat \<Rightarrow> 'a option" where
  "nth_opt xs i = (if i < length xs then Some (xs ! i) else None)"

definition nth_num :: "num list \<Rightarrow> nat \<Rightarrow> num" where
  "nth_num xs i = (if i < length xs then xs ! i else None)"

text \<open>\<open>(index + 1) % size\<close>, the step of every write index.\<close>

definition nextIndex :: "int option \<Rightarrow> int \<Rightarrow> int option" where
  "nextIndex idx sz = do { i \<leftarrow> idx; js_rem (i + 1) sz }"

text \<open>The fractional read shared by the diffusion filters (lines 298 to 306) and the
  network lines (lines 437 to 445).\<close>

definition readInterp :: "num list \<Rightarrow> int option \<Rightarrow> int \<Rightarrow> num \<Rightarrow> num" where
  "readInterp buf idx sz modAmount =
     do { i \<leftarrow> idx;
          m \<leftarrow> modAmount;
          let readPos = real_of_int i - real_of_int sz - m;
          let readIdx = \<lfloor>readPos\<rfloor>;
          let frac = readPos - real_of_int readIdx;
          r1 \<leftarrow> js_rem readIdx sz;
          idx1 \<leftarrow> js_rem (r1 + sz) sz;
          r2 \<leftarrow> js_rem (readIdx + 1) sz;
          idx2 \<leftarrow> js_rem (r2 + sz) sz;
          b1 \<leftarrow> buf_get buf idx1;
          b2 \<leftarrow> buf_get buf idx2;
          Some (b1 * (1 - frac) + b2 * frac) }"

definition allpassDelayed :: "apf \<Rightarrow> real \<Rightarrow> num" where
  "allpassDelayed a lfoValue =
     readInterp (apf.buffer a) (apf.index a) (apf.size_smp a) (Some (apf.modDepth a * lfoValue))"

definition processAllpass :: "apf \<Rightarrow> num \<Rightarrow> real \<Rightarrow> apf \<times> num" where
  "processAllpass a input lfoValue =
     (let delayed = allpassDelayed a lfoValue;
          output = do { x \<leftarrow> input; d \<leftarrow> delayed;
                        Some (- apf.gain a * x + d + apf.gain a * (x - apf.gain a * d)) }
      in (a\<lparr>apf.buffer := buf_set (apf.buffer a) (apf.index a)
                              (do { x \<leftarrow> input; d \<leftarrow> delayed; Some (x + apf.gain a * d) }),
            apf.index := nextIndex (apf.index a) (apf.size_smp a)\<rparr>,
          output))"

text \<open>\<open>filters.forEach((apf, idx) => x = this.processAllpass(apf, x, sel[idx % sel.length]))\<close>\<close>

fun allpassChain :: "real list \<Rightarrow> nat \<Rightarrow> apf list \<Rightarrow> num \<Rightarrow> apf list \<times> num" where
  "allpassChain sel idx [] x = ([], x)"
| "allpassChain sel idx (a # as) x =
     (let (a', y) = processAllpass a x (sel ! (idx mod length sel));
          (as', z) = allpassChain sel (Suc idx) as y
      in (a' # as', z))"

definition earlyTap :: "num \<Rightarrow> delay \<Rightarrow> delay \<times> num" where
  "earlyTap preDelayed d =
     (let len = int (length (delay.buffer d));
          readIdx = do { i \<leftarrow> delay.index d; js_rem (i - delay.size_smp d + len) len }
      in (d\<lparr>delay.buffer := buf_set (delay.buffer d) (delay.index d) preDelayed,
            delay.index := nextIndex (delay.index d) len\<rparr>,
          do { k \<leftarrow> readIdx; b \<leftarrow> buf_get (delay.buffer d) k; Some (b * delay.gain d) }))"

fun earlyBank :: "num \<Rightarrow> delay list \<Rightarrow> num \<Rightarrow> delay list \<times> num" where
  "earlyBank preDelayed [] early = ([], early)"
| "earlyBank preDelayed (d # ds) early =
     (let (d', c) = earlyTap preDelayed d;
          (ds', early') = earlyBank preDelayed ds (do { e \<leftarrow> early; x \<leftarrow> c; Some (e + x) })
      in (d' # ds', early'))"

definition lfoValues :: "engine \<Rightarrow> real list" where
  "lfoValues s = map (\<lambda>k. sin (phase (lfos s ! k)) * amp (lfos s ! k)) [0, 1, 2, 3]"

definition fdnRead :: "real list \<Rightarrow> nat \<times> line \<Rightarrow> num" where
  "fdnRead lfo = (\<lambda>(idx, l).
     readInterp (line.buffer l) (line.index l) (line.size_smp l)
       (do { v \<leftarrow> nth_opt (lfo @ lfo) idx; Some (line.modDepth l * v) }))"

definition matrixRow :: "(nat \<Rightarrow> nat \<Rightarrow> real) \<Rightarrow> num list \<Rightarrow> nat \<Rightarrow> num" where
  "matrixRow m fdnOutputs row =
     foldl (\<lambda>acc col. do { a \<leftarrow> acc; v \<leftarrow> nth_num fdnOutputs col; Some (a + m row col * v) })
       (Some 0) [0..<8]"

text \<open>The value stored into a line (lines 459 to 478), with the new filter states and
  the new state of the noise generator.\<close>

definition fdnFeedbackValue ::
  "params \<Rightarrow> num \<Rightarrow> num \<Rightarrow> num \<Rightarrow> nat \<Rightarrow> line \<Rightarrow> nat \<Rightarrow> num \<times> num \<times> num \<times> nat" where
  "fdnFeedbackValue p fb fdnInput mo idx l g =
     (let feedback0 = do { m \<leftarrow> mo; f \<leftarrow> fb; Some (m * f) };
          feedback1 = (if idx < 4 then do { f \<leftarrow> feedback0; x \<leftarrow> fdnInput; Some (f + x * 0.5) }
                       else feedback0);
          dState = processOnePoleLP (dampCoeff l) (dampState l) feedback1;
          (hpOut, hState) = processOnePoleHP (hpCoeff l) (hpState l) dState;
          feedback2 = do { f \<leftarrow> hpOut; Some (softClip (f * 1.2) * 0.9) }
      in if vintage p > 0
         then (let (g', noise) = getVintageNoise g
               in (do { f \<leftarrow> feedback2; Some (f + noise * vintage p) }, dState, hState, g'))
         else (feedback2, dState, hState, g))"

definition fdnWriteLine ::
  "params \<Rightarrow> num \<Rightarrow> num \<Rightarrow> num \<Rightarrow> nat \<Rightarrow> line \<Rightarrow> nat \<Rightarrow> line \<times> nat" where
  "fdnWriteLine p fb fdnInput mo idx l g =
     (let (feedback, dState, hState, g') = fdnFeedbackValue p fb fdnInput mo idx l g
      in (l\<lparr>dampState := dState, hpState := hState,
            line.buffer := buf_set (line.buffer l) (line.index l) feedback,
            line.index := nextIndex (line.index l) (line.size_smp l)\<rparr>, g'))"

fun fdnWriteBack ::
  "params \<Rightarrow> num \<Rightarrow> num \<Rightarrow> (nat \<Rightarrow> num) \<Rightarrow> nat \<Rightarrow> line list \<Rightarrow> nat \<Rightarrow> line list \<times> nat" where
  "fdnWriteBack p fb fdnInput matrixOut idx [] g = ([], g)"
| "fdnWriteBack p fb fdnInput matrixOut idx (l # ls) g =
     (let (l', g') = fdnWriteLine p fb fdnInput (matrixOut idx) idx l g;
          (ls', g'') = fdnWriteBack p fb fdnInput matrixOut (Suc idx) ls g'
      in (l' # ls', g''))"

text \<open>Lines 485 to 510: taps, width, colour filter and the linked limiter.  Returns the
  new colour filter states and the wet pair.\<close>

definition outputStage ::
  "engine \<Rightarrow> num list \<Rightarrow> num \<Rightarrow> num \<Rightarrow> num \<times> num \<times> num \<times> num" where
  "outputStage s fdnOutputs earlyL earlyR =
     (let out = nth_num fdnOutputs;
          wetL0 = do { a \<leftarrow> out 0; b \<leftarrow> out 2; c \<leftarrow> out 4; d \<leftarrow> out 6; Some ((a + b + c + d) * 0.25) };
          wetR0 = do { a \<leftarrow> out 1; b \<leftarrow> out 3; c \<leftarrow> out 5; d \<leftarrow> out 7; Some ((a + b + c + d) * 0.25) };
          wetL1 = do { w \<leftarrow> wetL0; e \<leftarrow> earlyL; Some (w + e * 0.3) };
          wetR1 = do { w \<leftarrow> wetR0; e \<leftarrow> earlyR; Some (w + e * 0.3) };
          mid = do { l \<leftarrow> wetL1; r \<leftarrow> wetR1; Some ((l + r) * 0.5) };
          side = do { l \<leftarrow> wetL1; r \<leftarrow> wetR1; Some ((l - r) * 0.5) };
          wetL2 = do { m \<leftarrow> mid; sd \<leftarrow> side; Some (m + sd * stereoWidth (params s)) };
          wetR2 = do { m \<leftarrow> mid; sd \<leftarrow> side; Some (m - sd * stereoWidth (params s)) };
          lpL = processOnePoleLP (coeff (outputLP s)) (stateL (outputLP s)) wetL2;
          lpR = processOnePoleLP (coeff (outputLP s)) (stateR (outputLP s)) wetR2
      in case (lpL, lpR) of
           (Some l, Some r) \<Rightarrow>
             (let wetPeak = max \<bar>l\<bar> \<bar>r\<bar> in
              if wetPeak > safetyThreshold s
              then (let reduction = safetyThreshold s / wetPeak
                    in (lpL, lpR, Some (l * reduction), Some (r * reduction)))
              else (lpL, lpR, lpL, lpR))
         | _ \<Rightarrow> (lpL, lpR, lpL, lpR))"

text \<open>Lines 513 to 518: the mix and the final clip of one channel.\<close>

definition mixClip :: "real \<Rightarrow> num \<Rightarrow> num \<Rightarrow> num" where
  "mixClip mx dry wet = do { d \<leftarrow> dry; w \<leftarrow> wet; Some (max (- 1) (min 1 (d * (1 - mx) + w * mx))) }"

text \<open>Lines 380 to 382: the read from the pre-delay buffer.\<close>

definition preDelayRead :: "real \<Rightarrow> engine \<Rightarrow> num" where
  "preDelayRead sr s =
     (let preDelayTime = \<lfloor>(preDelayMs (params s) / 1000) * sr\<rfloor>;
          preDelayIdx = do { i \<leftarrow> preDelayIndex s;
                             js_rem (i - preDelayTime + maxPreDelay s) (maxPreDelay s) }
      in do { k \<leftarrow> preDelayIdx; buf_get (preDelayBuffer s) k })"

text \<open>Lines 367 to 432 of the sample loop: input high-pass, pre-delay, early reflections
  and the two diffusion stages.  Returns the new state, the filtered input pair, the early
  pair and the input of the delay network.\<close>

definition frontEnd ::
  "real \<Rightarrow> engine \<Rightarrow> num \<Rightarrow> num \<Rightarrow> engine \<times> num \<times> num \<times> num \<times> num \<times> num" where
  "frontEnd sr s inL0 inR0 =
     (let p = params s;
          (inL, hpStL) = processOnePoleHP (coeff (inputHP s)) (stateL (inputHP s)) inL0;
          (inR, hpStR) = processOnePoleHP (coeff (inputHP s)) (stateR (inputHP s)) inR0;
          preDelayed = preDelayRead sr s;
          (early', earlyL) = earlyBank preDelayed (earlyDelays s) (Some 0);
          (earlyR', earlyR) = earlyBank preDelayed (earlyDelaysR s) (Some 0);
          lfo = lfoValues s;
          diffL0 = do { d \<leftarrow> preDelayed; e \<leftarrow> earlyL; Some (d + e * 0.5) };
          diffR0 = do { d \<leftarrow> preDelayed; e \<leftarrow> earlyR; Some (d + e * 0.5) };
          (dA, diffL1) = allpassChain [lfo ! 0, lfo ! 1, lfo ! 2, lfo ! 3] 0 (diffusionA s) diffL0;
          (dAR, diffR1) = allpassChain [lfo ! 1, lfo ! 2, lfo ! 3, lfo ! 0] 0 (diffusionAR s) diffR0;
          (dB, diffL) = allpassChain [lfo ! 2, lfo ! 3, lfo ! 0] 0 (diffusionB s) diffL1;
          (dBR, diffR) = allpassChain [lfo ! 3, lfo ! 0, lfo ! 1] 0 (diffusionBR s) diffR1
      in (s\<lparr>inputHP := (inputHP s)\<lparr>stateL := hpStL, stateR := hpStR\<rparr>,
            preDelayBuffer := buf_set (preDelayBuffer s) (preDelayIndex s)
                                (do { l \<leftarrow> inL; r \<leftarrow> inR; Some ((l + r) * 0.5) }),
            preDelayIndex := nextIndex (preDelayIndex s) (maxPreDelay s),
            earlyDelays := early', earlyDelaysR := earlyR',
            diffusionA := dA, diffusionAR := dAR, diffusionB := dB, diffusionBR := dBR\<rparr>,
          inL, inR, earlyL, earlyR,
          do { l \<leftarrow> diffL; r \<leftarrow> diffR; Some ((l + r) * 0.5) }))"

text \<open>Lines 435 to 455: the values read from the lines and the rows of the matrix product
  (\<open>matrixOut\<close> has eight entries).\<close>

definition fdnReadAll :: "engine \<Rightarrow> num list" where
  "fdnReadAll s = map (fdnRead (lfoValues s)) (enumerate 0 (fdnLines s))"

definition matrixOut :: "(nat \<Rightarrow> nat \<Rightarrow> real) \<Rightarrow> num list \<Rightarrow> nat \<Rightarrow> num" where
  "matrixOut m fdnOutputs row = (if row < 8 then matrixRow m fdnOutputs row else None)"

text \<open>The body of the sample loop (lines 367 to 518): new state, left and right output.\<close>

definition process_sample :: "real \<Rightarrow> engine \<Rightarrow> num \<Rightarrow> num \<Rightarrow> engine \<times> num \<times> num" where
  "process_sample sr s inL0 inR0 =
     (let (s1, inL, inR, earlyL, earlyR, fdnInput) = frontEnd sr s inL0 inR0;
          fdnOutputs = fdnReadAll s1;
          (lines', g') = fdnWriteBack (params s1) (fdnFeedback s1) fdnInput
                           (matrixOut (fdnMatrix s1) fdnOutputs) 0 (fdnLines s1) (noiseGen s1);
          (lpL, lpR, wetL, wetR) = outputStage s1 fdnOutputs earlyL earlyR
      in (s1\<lparr>fdnLines := lines', noiseGen := g',
             outputLP := (outputLP s1)\<lparr>stateL := lpL, stateR := lpR\<rparr>\<rparr>,
          mixClip (mix (params s1)) inL wetL, mixClip (mix (params s1)) inR wetR))"

section \<open>Processing a block\<close>

definition updateLFOs :: "nat \<Rightarrow> lfo list \<Rightarrow> lfo list" where
  "updateLFOs blockSize =
     map (\<lambda>l. let ph = phase l + rate l * real blockSize
               in l\<lparr>phase := (if ph > pi * 2 then ph - pi * 2 else ph)\<rparr>)"

fun process_loop :: "real \<Rightarrow> engine \<Rightarrow> (num \<times> num) list \<Rightarrow> engine \<times> (num \<times> num) list" where
  "process_loop sr s [] = (s, [])"
| "process_loop sr s ((inL, inR) # rest) =
     (let (s', outL, outR) = process_sample sr s inL inR;
          (s'', outs) = process_loop sr s' rest
      in (s'', (outL, outR) # outs))"

text \<open>\<open>process\<close>: the channels of the first input, the new state and the stereo output
  block (\<open>None\<close> when the input has no channel and the output is left as it was).  The
  output has two channels of the input's block length.\<close>

definition process :: "real \<Rightarrow> real list list \<Rightarrow> engine \<Rightarrow> engine \<times> (num \<times> num) list option" where
  "process sr input s =
     (case input of
        [] \<Rightarrow> (s, None)
      | inputL # others \<Rightarrow>
          (let inputR = (case others of [] \<Rightarrow> inputL | r # _ \<Rightarrow> r);
               blockSize = length inputL;
               s1 = s\<lparr>lfos := updateLFOs blockSize (lfos s)\<rparr>;
               (s2, out) = process_loop sr s1
                             (map (\<lambda>i. (nth_opt inputL i, nth_opt inputR i)) [0..<blockSize])
           in (s2, Some out)))"

section \<open>Scenarios\<close>

text \<open>The message the node sends for its preset \<open>medium-hall\<close>.\<close>

definition mediumHall :: "(field \<times> real) list" where
  "mediumHall =
     [(Mix, 0.4), (PreDelayMs, 15), (Decay, 2.5), (Size, 0.7), (Diffusion, 0.75),
      (LowCutHz, 100), (HighCutHz, 7000), (Color, 0.5), (ModRate, 0.5), (ModDepth, 0.3),
      (StereoWidth, 0.85), (Vintage, 0.3), (Mode, 1)]"

text \<open>An engine constructed at 48 kHz, and the same engine after that message; every call
  of \<open>Math.random()\<close> returns one half.\<close>

definition engine48k :: engine where
  "engine48k = after (initialEngine 48000 (\<lambda>k. 1 / 2)) (constructor 48000 (\<lambda>k. 1 / 2))"

definition hallEngine :: engine where
  "hallEngine = onmessage 48000 (\<lambda>k. 1 / 2) mediumHall engine48k"

text \<open>A render quantum of silence on two channels, and the engine after a number of them.\<close>

definition silence :: "real list list" where
  "silence = [replicate 128 0, replicate 128 0]"

fun run_blocks :: "real \<Rightarrow> real list list \<Rightarrow> nat \<Rightarrow> engine \<Rightarrow> engine" where
  "run_blocks sr input 0 s = s"
| "run_blocks sr input (Suc n) s = run_blocks sr input n (fst (process sr input s))"

text \<open>The feedback gain as it would be with the decay floored at a positive \<open>eps\<close> before the
  division (the wording of the specification, for comparison with \<open>feedbackGain\<close>); the
  floored divisor is positive, so it is never a zero.\<close>

definition feedbackGain_floored :: "real \<Rightarrow> real \<Rightarrow> line list \<Rightarrow> real \<Rightarrow> num" where
  "feedbackGain_floored eps sr ls decaySeconds = feedbackGain sr ls (max decaySeconds eps) False"

text \<open>The engine constructed at 48 kHz after a parameter update with the default record and
  a given decay (\<open>-0\<close> when the decay is \<open>0\<close> and \<open>z\<close> holds).\<close>

definition decayEngine :: "real \<Rightarrow> bool \<Rightarrow> engine" where
  "decayEngine d z =
     (let s = engine48k\<lparr>params := defaultParams\<lparr>decay := d, decayNegZero := z\<rparr>\<rparr>
      in after s (updateInternalParams 48000 (\<lambda>k. 1 / 2) s))"

text \<open>What a block leaves alone in a line: logical length, buffer capacity, modulation depth.\<close>

definition lineShape :: "line \<Rightarrow> int \<times> nat \<times> real" where
  "lineShape l = (line.size_smp l, length (line.buffer l), line.modDepth l)"

text \<open>Line \<open>k\<close> of an engine has a given shape and write index.\<close>

definition lineAt :: "engine \<Rightarrow> nat \<Rightarrow> int \<times> nat \<times> real \<Rightarrow> int option \<Rightarrow> bool" where
  "lineAt s k sh io \<longleftrightarrow>
     k < length (fdnLines s) \<and> lineShape (fdnLines s ! k) = sh \<and> line.index (fdnLines s ! k) = io"

text \<open>The engine at the first sample of the 65th block of silence after the preset message:
  64 blocks have been processed and the oscillators have been stepped for the 65th.\<close>

definition sample8192 :: engine where
  "sample8192 = (run_blocks 48000 silence 64 hallEngine)
                  \<lparr>lfos := updateLFOs 128 (lfos (run_blocks 48000 silence 64 hallEngine))\<rparr>"

text \<open>The engine after a message that sets the mix to zero.\<close>

definition bypassEngine :: engine where
  "bypassEngine = onmessage 48000 (\<lambda>k. 1 / 2) [(Mix, 0)] engine48k"

text \<open>Conditions under which the wet path of one sample reads numbers only: a line whose
  logical length lies within its buffer, an early tap whose read index is in range, and an
  engine with eight such lines, such taps and colour filter states that are numbers.\<close>

definition lineOK :: "line \<Rightarrow> bool" where
  "lineOK l \<longleftrightarrow>
     line.index l \<noteq> None \<and> 0 < line.size_smp l \<and>
     line.size_smp l \<le> int (length (line.buffer l)) \<and> None \<notin> set (line.buffer l)"

definition tapOK :: "delay \<Rightarrow> bool" where
  "tapOK d \<longleftrightarrow>
     (\<exists>i. delay.index d = Some i \<and> 0 \<le> i) \<and>
     delay.size_smp d \<le> int (length (delay.buffer d)) \<and>
     delay.buffer d \<noteq> [] \<and> None \<notin> set (delay.buffer d)"

definition wetReady :: "engine \<Rightarrow> bool" where
  "wetReady s \<longleftrightarrow>
     length (fdnLines s) = 8 \<and> (\<forall>l \<in> set (fdnLines s). lineOK l) \<and>
     (\<forall>d \<in> set (earlyDelays s). tapOK d) \<and> (\<forall>d \<in> set (earlyDelaysR s). tapOK d) \<and>
     stateL (outputLP s) \<noteq> None \<and> stateR (outputLP s) \<noteq> None"

text \<open>An allpass filter whose delay lies within its buffer, and an engine in which every
  stored value and every index is a number and every delay fits its buffer.\<close>

definition apfOK :: "apf \<Rightarrow> bool" where
  "apfOK a \<longleftrightarrow>
     apf.index a \<noteq> None \<and> 0 < apf.size_smp a \<and>
     apf.size_smp a \<le> int (length (apf.buffer a)) \<and> None \<notin> set (apf.buffer a)"

definition engineOK :: "real \<Rightarrow> engine \<Rightarrow> bool" where
  "engineOK sr s \<longleftrightarrow>
     wetReady s \<and>
     (\<forall>l \<in> set (fdnLines s). dampState l \<noteq> None \<and> hpState l \<noteq> None) \<and>
     (\<forall>a \<in> set (diffusionA s). apfOK a) \<and> (\<forall>a \<in> set (diffusionAR s). apfOK a) \<and>
     (\<forall>a \<in> set (diffusionB s). apfOK a) \<and> (\<forall>a \<in> set (diffusionBR s). apfOK a) \<and>
     (\<exists>i. preDelayIndex s = Some i \<and> 0 \<le> i) \<and>
     0 < maxPreDelay s \<and> maxPreDelay s \<le> int (length (preDelayBuffer s)) \<and>
     None \<notin> set (preDelayBuffer s) \<and>
     \<lfloor>(preDelayMs (params s) / 1000) * sr\<rfloor> \<le> maxPreDelay s \<and>
     stateL (inputHP s) \<noteq> None \<and> stateR (inputHP s) \<noteq> None \<and> fdnFeedback s \<noteq> None"

text \<open>Lines 411 to 432: the input of the first diffusion stage of a channel and the
  oscillator values each stage cycles through.\<close>

definition diffIn :: "real \<Rightarrow> engine \<Rightarrow> delay list \<Rightarrow> num" where
  "diffIn sr s ds = do { d \<leftarrow> preDelayRead sr s; e \<leftarrow> snd (earlyBank (preDelayRead sr s) ds (Some 0));
                         Some (d + e * 0.5) }"

definition selA :: "engine \<Rightarrow> real list" where
  "selA s = [lfoValues s ! 0, lfoValues s ! 1, lfoValues s ! 2, lfoValues s ! 3]"

definition selAR :: "engine \<Rightarrow> real list" where
  "selAR s = [lfoValues s ! 1, lfoValues s ! 2, lfoValues s ! 3, lfoValues s ! 0]"

definition selB :: "engine \<Rightarrow> real list" where
  "selB s = [lfoValues s ! 2, lfoValues s ! 3, lfoValues s ! 0]"

definition selBR :: "engine \<Rightarrow> real list" where
  "selBR s = [lfoValues s ! 3, lfoValues s ! 0, lfoValues s ! 1]"

text \<open>An output pair of numbers in \<open>[-1, 1]\<close>.\<close>

definition inRange :: "num \<times> num \<Rightarrow> bool" where
  "inRange p = (case p of (Some a, Some b) \<Rightarrow> - 1 \<le> a \<and> a \<le> 1 \<and> - 1 \<le> b \<and> b \<le> 1 | _ \<Rightarrow> False)"

section \<open>The parameter update\<close>

lemma selectMode_cases:
  "selectMode 0 = Inr (modes ! 0)" "selectMode 1 = Inr (modes ! 1)"
  "selectMode 2 = Inr (modes ! 2)" "selectMode 3 = Inr (modes ! 3)"
  by (simp_all add: selectMode_def js_rem_def modes_def)

lemma selectMode_Inr: "selectMode m = Inr md \<Longrightarrow> md \<in> set modes"
  by (auto simp: selectMode_def split: option.splits if_splits)

lemma updateInternalParams_Inr:
  assumes "updateInternalParams sr rnd s = Inr s'"
  obtains md where "selectMode (mode (params s)) = Inr md"
  using assms by (auto simp: updateInternalParams_def Let_def split: sum.splits)

lemma updateInternalParams_total:
  assumes "selectMode (mode (params s)) = Inr md"
  shows "updateInternalParams sr rnd s = Inr (after s (updateInternalParams sr rnd s))"
  using assms by (simp add: updateInternalParams_def Let_def after_def)

lemma upd_length_fdnLines:
  assumes "updateInternalParams sr rnd s = Inr s'"
  shows "length (fdnLines s') = length (fdnLines s)"
  using assms by (auto simp: updateInternalParams_def Let_def split: sum.splits)

lemma upd_fdnLines_nth:
  assumes "updateInternalParams sr rnd s = Inr s'" "selectMode (mode (params s)) = Inr md"
    and "i < length (fdnLines s)"
  shows "fdnLines s' ! i = (fdnLines s ! i)
     \<lparr>line.size_smp := \<lfloor>real_of_int (baseSize (fdnLines s ! i)) * ((0.3 + size_prm (params s) * 1.7) * sizeScale md)\<rfloor>,
      dampCoeff := onePoleCoeff (highCutHz (params s)) sr * dampBase md * (0.95 + rnd i * 0.1),
      hpCoeff := onePoleCoeff (lowCutHz (params s)) sr * hpBase md,
      line.modDepth := params.modDepth (params s) * 0.5 * 5\<rparr>"
  using assms
  by (auto simp: updateInternalParams_def Let_def nth_enumerate_eq split: sum.splits)

lemma upd_lines:
  assumes "updateInternalParams sr rnd s = Inr s'" "selectMode (mode (params s)) = Inr md"
  shows "map line.size_smp (fdnLines s') =
         map (\<lambda>l. \<lfloor>real_of_int (baseSize l) * ((0.3 + size_prm (params s) * 1.7) * sizeScale md)\<rfloor>) (fdnLines s)"
    and "map line.buffer (fdnLines s') = map line.buffer (fdnLines s)"
    and "map line.index (fdnLines s') = map line.index (fdnLines s)"
    and "map dampState (fdnLines s') = map dampState (fdnLines s)"
    and "map hpState (fdnLines s') = map hpState (fdnLines s)"
    and "map baseSize (fdnLines s') = map baseSize (fdnLines s)"
  using upd_length_fdnLines [OF assms(1)]
  by (auto intro!: nth_equalityI simp: upd_fdnLines_nth [OF assms])

lemma upd_apf_frame:
  "map apf.buffer (map (\<lambda>a. a\<lparr>apf.gain := g, apf.modDepth := d\<rparr>) xs) = map apf.buffer xs"
  "map apf.index (map (\<lambda>a. a\<lparr>apf.gain := g, apf.modDepth := d\<rparr>) xs) = map apf.index xs"
  by (simp_all add: comp_def)

lemma upd_lfo_phase:
  assumes "updateInternalParams sr rnd s = Inr s'"
  shows "map phase (lfos s') = map phase (lfos s)"
  using assms
  by (auto intro!: nth_equalityI simp: updateInternalParams_def Let_def nth_enumerate_eq split: sum.splits)

lemma upd_frame_rest:
  assumes "updateInternalParams sr rnd s = Inr s'"
  shows "preDelayBuffer s' = preDelayBuffer s \<and> preDelayIndex s' = preDelayIndex s
    \<and> earlyDelays s' = earlyDelays s \<and> earlyDelaysR s' = earlyDelaysR s
    \<and> map apf.buffer (diffusionA s') = map apf.buffer (diffusionA s)
    \<and> map apf.index (diffusionA s') = map apf.index (diffusionA s)
    \<and> map apf.buffer (diffusionAR s') = map apf.buffer (diffusionAR s)
    \<and> map apf.index (diffusionAR s') = map apf.index (diffusionAR s)
    \<and> map apf.buffer (diffusionB s') = map apf.buffer (diffusionB s)
    \<and> map apf.index (diffusionB s') = map apf.index (diffusionB s)
    \<and> map apf.buffer (diffusionBR s') = map apf.buffer (diffusionBR s)
    \<and> map apf.index (diffusionBR s') = map apf.index (diffusionBR s)
    \<and> stateL (inputHP s') = stateL (inputHP s) \<and> stateR (inputHP s') = stateR (inputHP s)
    \<and> stateL (outputLP s') = stateL (outputLP s) \<and> stateR (outputLP s') = stateR (outputLP s)
    \<and> outputHP s' = outputHP s \<and> noiseGen s' = noiseGen s
    \<and> fdnMatrix s' = fdnMatrix s \<and> params s' = params s \<and> maxPreDelay s' = maxPreDelay s"
  using assms
  by (auto simp: updateInternalParams_def Let_def comp_def split: sum.splits)

lemma initial_fdnLines:
  "fdnLines (initialEngine sr rnd) = map (\<lambda>(i, b).
          \<lparr>line.buffer = newFloat32Array 8192, size_smp = b, baseSize = b, index = Some 0,
           dampCoeff = 0.9, dampState = Some 0, hpCoeff = 0.05, hpState = Some 0,
           modPhase = (real i / 8) * pi * 2, modDepth = 0\<rparr>) (enumerate 0 fdnBaseSizes)"
  by (simp add: initialEngine_def resizeFDNBuffers_def fdnBaseSizes_def newFloat32Array_def)

lemma initial_lines_proj:
  "map baseSize (fdnLines (initialEngine sr rnd)) = fdnBaseSizes"
  "map (\<lambda>l. length (line.buffer l)) (fdnLines (initialEngine sr rnd)) = [8192, 8192, 8192, 8192, 8192, 8192, 8192, 8192]"
  "map line.index (fdnLines (initialEngine sr rnd)) = [Some 0, Some 0, Some 0, Some 0, Some 0, Some 0, Some 0, Some 0]"
  by (simp_all add: initial_fdnLines fdnBaseSizes_def newFloat32Array_def)

lemma initial_mode: "selectMode (mode (params (initialEngine sr rnd))) = Inr (modes ! 0)"
  by (simp add: initialEngine_def defaultParams_def selectMode_cases)

lemma constructor_Inr: "constructor sr rnd = Inr (after (initialEngine sr rnd) (constructor sr rnd))"
  unfolding constructor_def by (rule updateInternalParams_total [OF initial_mode])

lemma engine48k_upd: "updateInternalParams 48000 (\<lambda>k. 1 / 2) (initialEngine 48000 (\<lambda>k. 1 / 2)) = Inr engine48k"
  using constructor_Inr [of 48000 "\<lambda>k. 1 / 2"] by (simp add: engine48k_def constructor_def)

lemma engine48k_lines:
  "map baseSize (fdnLines engine48k) = fdnBaseSizes"
  "map (\<lambda>l. length (line.buffer l)) (fdnLines engine48k) = [8192, 8192, 8192, 8192, 8192, 8192, 8192, 8192]"
  "map line.index (fdnLines engine48k) = [Some 0, Some 0, Some 0, Some 0, Some 0, Some 0, Some 0, Some 0]"
proof -
  note u = upd_lines [OF engine48k_upd initial_mode]
  show "map baseSize (fdnLines engine48k) = fdnBaseSizes"
    using u(6) by (simp add: initial_lines_proj)
  have "map (length \<circ> line.buffer) (fdnLines engine48k) = map (length \<circ> line.buffer) (fdnLines (initialEngine 48000 (\<lambda>k. 1 / 2)))"
    using u(2) by (metis map_map)
  then show "map (\<lambda>l. length (line.buffer l)) (fdnLines engine48k) = [8192, 8192, 8192, 8192, 8192, 8192, 8192, 8192]"
    using initial_lines_proj(2) [of 48000 "\<lambda>k. 1 / 2"] by (simp add: comp_def)
  show "map line.index (fdnLines engine48k) = [Some 0, Some 0, Some 0, Some 0, Some 0, Some 0, Some 0, Some 0]"
    using u(3) by (simp add: initial_lines_proj)
qed

lemma params_engine48k: "params engine48k = defaultParams"
  using upd_frame_rest [OF engine48k_upd] by (simp add: initialEngine_def)

lemma foldl_assign_mediumHall:
  "foldl assign1 p mediumHall =
     \<lparr>mix = 0.4, preDelayMs = 15, decay = 2.5, decayNegZero = False, size_prm = 0.7,
      diffusion = 0.75,
      lowCutHz = 100, highCutHz = 7000, color = 0.5, modRate = 0.5, modDepth = 0.3,
      stereoWidth = 0.85, vintage = 0.3, mode = 1\<rparr>"
  by (cases p) (simp add: mediumHall_def)

lemma hallEngine_upd:
  "updateInternalParams 48000 (\<lambda>k. 1 / 2) (engine48k\<lparr>params := foldl assign1 (params engine48k) mediumHall\<rparr>) = Inr hallEngine"
proof -
  have "selectMode (mode (params (engine48k\<lparr>params := foldl assign1 (params engine48k) mediumHall\<rparr>))) = Inr (modes ! 1)"
    by (simp add: foldl_assign_mediumHall selectMode_cases)
  from updateInternalParams_total [OF this, of 48000 "\<lambda>k. 1 / 2"]
  obtain s' where s': "updateInternalParams 48000 (\<lambda>k. 1 / 2)
      (engine48k\<lparr>params := foldl assign1 (params engine48k) mediumHall\<rparr>) = Inr s'"
    by blast
  then have "hallEngine = s'"
    by (simp add: hallEngine_def onmessage_def after_def Let_def)
  with s' show ?thesis by simp
qed


lemma upd_shape:
  assumes "updateInternalParams sr rnd s = Inr s'" "selectMode (mode (params s)) = Inr md"
  shows "map lineShape (fdnLines s') =
         map (\<lambda>(b, n). (\<lfloor>real_of_int b * ((0.3 + size_prm (params s) * 1.7) * sizeScale md)\<rfloor>, n,
                         params.modDepth (params s) * 0.5 * 5))
           (map (\<lambda>l. (baseSize l, length (line.buffer l))) (fdnLines s))"
  using upd_length_fdnLines [OF assms(1)]
  by (auto intro!: nth_equalityI simp: upd_fdnLines_nth [OF assms] lineShape_def)

lemma engine48k_base:
  "map (\<lambda>l. (baseSize l, length (line.buffer l))) (fdnLines engine48k) =
     [(1453, 8192), (1789, 8192), (2099, 8192), (2423, 8192),
      (2789, 8192), (3167, 8192), (3547, 8192), (3989, 8192)]"
proof -
  have "map (\<lambda>l. (baseSize l, length (line.buffer l))) (fdnLines engine48k) =
        zip (map baseSize (fdnLines engine48k)) (map (\<lambda>l. length (line.buffer l)) (fdnLines engine48k))"
    by (simp add: zip_map_map zip_same_conv_map)
  then show ?thesis
    by (simp add: engine48k_lines fdnBaseSizes_def)
qed

lemma hallEngine_shape:
  "map lineShape (fdnLines hallEngine) =
     [(3030, 8192, 3 / 4), (3731, 8192, 3 / 4), (4378, 8192, 3 / 4), (5054, 8192, 3 / 4),
      (5817, 8192, 3 / 4), (6606, 8192, 3 / 4), (7399, 8192, 3 / 4), (8321, 8192, 3 / 4)]"
proof -
  let ?s = "engine48k\<lparr>params := foldl assign1 (params engine48k) mediumHall\<rparr>"
  have md: "selectMode (mode (params ?s)) = Inr (modes ! 1)"
    by (simp add: foldl_assign_mediumHall selectMode_cases)
  show ?thesis
    unfolding upd_shape [OF hallEngine_upd md]
    by (simp add: engine48k_base foldl_assign_mediumHall modes_def)
qed

lemma hallEngine_index:
  "map line.index (fdnLines hallEngine) = [Some 0, Some 0, Some 0, Some 0, Some 0, Some 0, Some 0, Some 0]"
proof -
  let ?s = "engine48k\<lparr>params := foldl assign1 (params engine48k) mediumHall\<rparr>"
  have md: "selectMode (mode (params ?s)) = Inr (modes ! 1)"
    by (simp add: foldl_assign_mediumHall selectMode_cases)
  show ?thesis
    using upd_lines(3) [OF hallEngine_upd md] by (simp add: engine48k_lines)
qed

lemma foldl_size_sum:
  "foldl (\<lambda>sum l. sum + line.size_smp l) a ls = a + sum_list (map line.size_smp ls)"
  by (induction ls arbitrary: a) simp_all

lemma avgDelaySeconds_cong:
  assumes "map line.size_smp xs = map line.size_smp ys"
  shows "avgDelaySeconds sr xs = avgDelaySeconds sr ys"
proof -
  have "length xs = length ys" using assms by (rule map_eq_imp_length_eq)
  then have "xs = [] \<longleftrightarrow> ys = []" by auto
  then show ?thesis
    using assms \<open>length xs = length ys\<close> by (simp add: avgDelaySeconds_def foldl_size_sum)
qed

lemma feedbackGain_cong:
  "map line.size_smp xs = map line.size_smp ys \<Longrightarrow> feedbackGain sr xs d z = feedbackGain sr ys d z"
  by (simp add: feedbackGain_def avgDelaySeconds_cong [of xs ys])

lemma upd_fdnFeedback:
  assumes "updateInternalParams sr rnd s = Inr s'"
  shows "fdnFeedback s' = feedbackGain sr (fdnLines s') (decay (params s)) (decayNegZero (params s))"
proof -
  from assms obtain md where md: "selectMode (mode (params s)) = Inr md"
    by (rule updateInternalParams_Inr)
  let ?l1 = "map (\<lambda>l. l\<lparr>line.size_smp := \<lfloor>real_of_int (baseSize l) * ((0.3 + size_prm (params s) * 1.7) * sizeScale md)\<rfloor>\<rparr>) (fdnLines s)"
  have "fdnFeedback s' = feedbackGain sr ?l1 (decay (params s)) (decayNegZero (params s))"
    using assms md by (auto simp: updateInternalParams_def Let_def)
  moreover have "map line.size_smp ?l1 = map line.size_smp (fdnLines s')"
    by (simp add: upd_lines(1) [OF assms md] comp_def)
  ultimately show ?thesis
    using feedbackGain_cong [of ?l1 "fdnLines s'"] by simp
qed

lemma feedbackGain_pos_decay:
  assumes "avgDelaySeconds sr ls = Some a" "d \<noteq> 0"
  shows "feedbackGain sr ls d z = Some (min (10 powr (- 3 * a / d)) 0.985)"
  using assms by (simp add: feedbackGain_def js_div_def)

lemma selectMode_valid:
  assumes "m \<in> {0, 1, 2, 3}"
  shows "\<exists>md. selectMode m = Inr md"
  using assms selectMode_cases by auto

text \<open>
  Claim C4.  For a decay in \<open>(0, 30]\<close>, a size in \<open>[0, 1]\<close> and each of the four modes, the
  parameter update succeeds and leaves a feedback gain that is a number not above \<open>0.985\<close>.
\<close>

theorem feedbackGain_le_cap:
  assumes "0 < decay (params s)" "decay (params s) \<le> 30"
    and "0 \<le> size_prm (params s)" "size_prm (params s) \<le> 1"
    and "mode (params s) \<in> {0, 1, 2, 3}"
    and "fdnLines s \<noteq> []"
  shows "\<exists>s' g. updateInternalParams sr rnd s = Inr s' \<and> fdnFeedback s' = Some g \<and> g \<le> 0.985"
proof -
  from selectMode_valid [OF assms(5)] obtain md where "selectMode (mode (params s)) = Inr md" ..
  from updateInternalParams_total [OF this]
  obtain s' where s': "updateInternalParams sr rnd s = Inr s'" by blast
  have "fdnLines s' \<noteq> []"
    using upd_length_fdnLines [OF s'] assms(6) by auto
  then obtain a where a: "avgDelaySeconds sr (fdnLines s') = Some a"
    by (simp add: avgDelaySeconds_def)
  have "fdnFeedback s' = Some (min (10 powr (- 3 * a / decay (params s))) 0.985)"
    using upd_fdnFeedback [OF s'] feedbackGain_pos_decay [OF a] assms(1) by simp
  with s' show ?thesis by auto
qed

theorem feedbackGain_le_cap_witness:
  "0 < decay (params (initialEngine 48000 (\<lambda>k. 1 / 2))) \<and>
   fdnLines (initialEngine 48000 (\<lambda>k. 1 / 2)) \<noteq> [] \<and>
   (\<exists>s' g. updateInternalParams 48000 (\<lambda>k. 1 / 2) (initialEngine 48000 (\<lambda>k. 1 / 2)) = Inr s' \<and>
            fdnFeedback s' = Some g \<and> g \<le> 0.985)"
proof -
  let ?s = "initialEngine 48000 (\<lambda>k. 1 / 2)"
  have p: "params ?s = defaultParams" by (simp add: initialEngine_def)
  have l: "fdnLines ?s \<noteq> []" by (simp add: initial_fdnLines fdnBaseSizes_def)
  have "0 < decay (params ?s)" "decay (params ?s) \<le> 30" "0 \<le> size_prm (params ?s)"
    "size_prm (params ?s) \<le> 1" "mode (params ?s) \<in> {0, 1, 2, 3}"
    by (simp_all add: p defaultParams_def)
  note h = this
  have "\<exists>s' g. updateInternalParams 48000 (\<lambda>k. 1 / 2) ?s = Inr s' \<and> fdnFeedback s' = Some g \<and> g \<le> 0.985"
    by (rule feedbackGain_le_cap [OF h l])
  then show ?thesis using h(1) l by simp
qed

subsection \<open>Line lengths and the frame of the update\<close>

lemma hallEngine_line7: "lineShape (fdnLines hallEngine ! 7) = (8321, 8192, 3 / 4)"
proof -
  have "length (fdnLines hallEngine) = 8"
    using arg_cong [OF hallEngine_shape, of length] by simp
  then have "lineShape (fdnLines hallEngine ! 7) = map lineShape (fdnLines hallEngine) ! 7"
    by simp
  then show ?thesis by (simp add: hallEngine_shape)
qed

text \<open>
  Claim C2 at the preset \<open>medium-hall\<close>, 48 kHz: after the update the eighth line has the
  logical length \<open>\<lfloor>3989 \<times> (0.3 + 0.7 \<times> 1.7) \<times> 1.4\<rfloor> = 8321\<close>, its buffer has 8192 cells.
\<close>

theorem hall_line_longer_than_buffer:
  "line.size_smp (fdnLines hallEngine ! 7) = \<lfloor>3989 * ((0.3 + 0.7 * 1.7) * 1.4 :: real)\<rfloor> \<and>
   line.size_smp (fdnLines hallEngine ! 7) = 8321 \<and>
   length (line.buffer (fdnLines hallEngine ! 7)) = 8192"
  using hallEngine_line7 by (simp add: lineShape_def)

text \<open>
  Claim C8.  The recomputation leaves every buffer, every write index and every filter
  state as it was (and the oscillator phases, the noise generator, the matrix and the
  parameter record as well), whether it completes or throws.
\<close>

theorem updateInternalParams_frame:
  "(let s' = after s (updateInternalParams sr rnd s) in
    preDelayBuffer s' = preDelayBuffer s \<and> preDelayIndex s' = preDelayIndex s
    \<and> earlyDelays s' = earlyDelays s \<and> earlyDelaysR s' = earlyDelaysR s
    \<and> map apf.buffer (diffusionA s') = map apf.buffer (diffusionA s)
    \<and> map apf.index (diffusionA s') = map apf.index (diffusionA s)
    \<and> map apf.buffer (diffusionAR s') = map apf.buffer (diffusionAR s)
    \<and> map apf.index (diffusionAR s') = map apf.index (diffusionAR s)
    \<and> map apf.buffer (diffusionB s') = map apf.buffer (diffusionB s)
    \<and> map apf.index (diffusionB s') = map apf.index (diffusionB s)
    \<and> map apf.buffer (diffusionBR s') = map apf.buffer (diffusionBR s)
    \<and> map apf.index (diffusionBR s') = map apf.index (diffusionBR s)
    \<and> map line.buffer (fdnLines s') = map line.buffer (fdnLines s)
    \<and> map line.index (fdnLines s') = map line.index (fdnLines s)
    \<and> map dampState (fdnLines s') = map dampState (fdnLines s)
    \<and> map hpState (fdnLines s') = map hpState (fdnLines s)
    \<and> stateL (inputHP s') = stateL (inputHP s) \<and> stateR (inputHP s') = stateR (inputHP s)
    \<and> stateL (outputLP s') = stateL (outputLP s) \<and> stateR (outputLP s') = stateR (outputLP s)
    \<and> outputHP s' = outputHP s \<and> map phase (lfos s') = map phase (lfos s)
    \<and> noiseGen s' = noiseGen s \<and> fdnMatrix s' = fdnMatrix s \<and> params s' = params s)"
proof (cases "updateInternalParams sr rnd s")
  case (Inl e)
  then show ?thesis by (simp add: after_def)
next
  case (Inr s')
  then obtain md where md: "selectMode (mode (params s)) = Inr md"
    by (rule updateInternalParams_Inr)
  have "after s (updateInternalParams sr rnd s) = s'"
    by (simp add: Inr after_def)
  then show ?thesis
    using upd_frame_rest [OF Inr] upd_lines(2-5) [OF Inr md] upd_lfo_phase [OF Inr]
    by (simp add: Let_def)
qed

subsection \<open>The colour cutoff\<close>

lemma upd_outputLP_coeff:
  assumes "updateInternalParams sr rnd s = Inr s'"
  shows "coeff (outputLP s') = onePoleCoeff (max (colorCutoff (params s)) 200) sr"
  using assms by (auto simp: updateInternalParams_def Let_def split: sum.splits)

text \<open>
  Claim C7 as stated fails at \<open>color = 1\<close>: the cutoff handed to the one-pole coefficient
  is 6000 Hz, not a value near 10000 Hz.
\<close>

theorem colorCutoff_at_one_counterexample:
  "max (colorCutoff (defaultParams\<lparr>color := 1\<rparr>)) 200 = 6000 \<and>
   \<not> (9000 \<le> max (colorCutoff (defaultParams\<lparr>color := 1\<rparr>)) 200)"
  by (simp add: colorCutoff_def defaultParams_def)

text \<open>
  Claim C7 as amended.  After an update the output colour filter has the one-pole coefficient
  of the cutoff \<open>max (2000 + (color - 0.5) \<times> 8000) 200\<close>: 200 Hz for a colour up to
  \<open>0.275\<close> (so at \<open>color = 0\<close>), 2000 Hz at \<open>color = 0.5\<close>, 6000 Hz at \<open>color = 1\<close>.
\<close>

theorem colorCutoff_piecewise:
  assumes "updateInternalParams sr rnd s = Inr s'"
  shows "coeff (outputLP s') = onePoleCoeff (max (colorCutoff (params s)) 200) sr \<and>
         max (colorCutoff (params s)) 200 =
           (if color (params s) \<le> 0.275 then 200 else 2000 + (color (params s) - 0.5) * 8000) \<and>
         (color (params s) = 0 \<longrightarrow> max (colorCutoff (params s)) 200 = 200) \<and>
         (color (params s) = 0.5 \<longrightarrow> max (colorCutoff (params s)) 200 = 2000) \<and>
         (color (params s) = 1 \<longrightarrow> max (colorCutoff (params s)) 200 = 6000)"
  using upd_outputLP_coeff [OF assms] by (auto simp: colorCutoff_def)

theorem colorCutoff_piecewise_witness:
  "updateInternalParams 48000 (\<lambda>k. 1 / 2) (initialEngine 48000 (\<lambda>k. 1 / 2)) = Inr engine48k \<and>
   color (params (initialEngine 48000 (\<lambda>k. 1 / 2))) = 0.5 \<and>
   coeff (outputLP engine48k) = onePoleCoeff 2000 48000"
proof -
  have c: "color (params (initialEngine 48000 (\<lambda>k. 1 / 2))) = 0.5"
    by (simp add: initialEngine_def defaultParams_def)
  with colorCutoff_piecewise [OF engine48k_upd] engine48k_upd show ?thesis
    by simp
qed

subsection \<open>The feedback gain and the decay\<close>

lemma feedbackGain_by_sign:
  assumes "avgDelaySeconds sr ls = Some a" "0 < a"
  shows "feedbackGain sr ls d z =
           (if 0 < d then Some (min (10 powr (- 3 * a / d)) 0.985)
            else if d < 0 then Some 0.985
            else if z then Some 0.985 else Some 0)"
proof -
  consider "0 < d" | "d = 0" | "d < 0" by linarith
  then show ?thesis
  proof cases
    case 1
    then show ?thesis using feedbackGain_pos_decay [OF assms(1), of d z] by simp
  next
    case 2
    then show ?thesis using assms by (simp add: feedbackGain_def js_div_def)
  next
    case 3
    have "- 3 * a \<le> 0" using assms(2) by simp
    with 3 have "0 \<le> - 3 * a / d" by (intro divide_nonpos_neg) simp_all
    then have "1 \<le> 10 powr (- 3 * a / d)" by (simp add: ge_one_powr_ge_zero)
    then have "min (10 powr (- 3 * a / d)) 0.985 = 0.985" by simp
    then show ?thesis using feedbackGain_pos_decay [OF assms(1), of d z] 3 by simp
  qed
qed

text \<open>
  Claim C3 as amended.  The update divides by the decay as it is given, with no floor: with a
  positive average line length \<open>a\<close> (in seconds) the gain is the clamped RT60 value for a
  positive decay, the cap \<open>0.985\<close> for a negative decay, and for a zero decay \<open>0\<close> when
  the zero is \<open>+0\<close> (the exponent is \<open>-\<infinity>\<close>) and the cap \<open>0.985\<close> when it is \<open>-0\<close> (the
  exponent is \<open>+\<infinity>\<close>); in each case it is a number in \<open>[0, 0.985]\<close>.
\<close>

theorem feedbackGain_decay_as_given:
  assumes "updateInternalParams sr rnd s = Inr s'"
    and "avgDelaySeconds sr (fdnLines s') = Some a" and "0 < a"
  shows "fdnFeedback s' =
           (if 0 < decay (params s) then Some (min (10 powr (- 3 * a / decay (params s))) 0.985)
            else if decay (params s) < 0 then Some 0.985
            else if decayNegZero (params s) then Some 0.985 else Some 0) \<and>
         (\<exists>g. fdnFeedback s' = Some g \<and> 0 \<le> g \<and> g \<le> 0.985)"
proof -
  have eq: "fdnFeedback s' =
           (if 0 < decay (params s) then Some (min (10 powr (- 3 * a / decay (params s))) 0.985)
            else if decay (params s) < 0 then Some 0.985
            else if decayNegZero (params s) then Some 0.985 else Some 0)"
    using upd_fdnFeedback [OF assms(1)] feedbackGain_by_sign [OF assms(2,3)] by simp
  define g :: real where
    "g = (if 0 < decay (params s) then min (10 powr (- 3 * a / decay (params s))) 0.985
          else if decay (params s) < 0 then 0.985
          else if decayNegZero (params s) then 0.985 else 0)"
  have "fdnFeedback s' = Some g" by (simp add: eq g_def)
  moreover have "0 \<le> g \<and> g \<le> 0.985"
  proof -
    have "min (10 powr (- 3 * a / decay (params s))) 0.985 \<le> (0.985 :: real)"
      by (rule min.cobounded2)
    moreover have "0 \<le> min (10 powr (- 3 * a / decay (params s))) (0.985 :: real)"
      by simp
    ultimately show ?thesis unfolding g_def by auto
  qed
  ultimately have "\<exists>g. fdnFeedback s' = Some g \<and> 0 \<le> g \<and> g \<le> 0.985" by blast
  with eq show ?thesis by (rule conjI)
qed

text \<open>The engine after an update with a given decay, and after a message that sets the decay
  alone.\<close>

lemma decayEngine_upd:
  "updateInternalParams 48000 (\<lambda>k. 1 / 2)
     (engine48k\<lparr>params := defaultParams\<lparr>decay := d, decayNegZero := z\<rparr>\<rparr>) =
     Inr (decayEngine d z)"
proof -
  let ?s = "engine48k\<lparr>params := defaultParams\<lparr>decay := d, decayNegZero := z\<rparr>\<rparr>"
  have "selectMode (mode (params ?s)) = Inr (modes ! 0)"
    by (simp add: defaultParams_def selectMode_cases)
  from updateInternalParams_total [OF this, of 48000 "\<lambda>k. 1 / 2"]
  show ?thesis by (simp add: decayEngine_def Let_def)
qed

lemma onmessage_decay:
  "onmessage 48000 (\<lambda>k. 1 / 2) [(Decay, d)] engine48k = decayEngine d False"
  by (simp add: onmessage_def decayEngine_def Let_def params_engine48k)

lemma decayEngine_sizes:
  "map line.size_smp (fdnLines (decayEngine d z)) =
     [1948, 2399, 2814, 3249, 3740, 4246, 4756, 5349]"
proof -
  let ?s = "engine48k\<lparr>params := defaultParams\<lparr>decay := d, decayNegZero := z\<rparr>\<rparr>"
  have md: "selectMode (mode (params ?s)) = Inr (modes ! 0)"
    by (simp add: defaultParams_def selectMode_cases)
  have "map (\<lambda>l. \<lfloor>real_of_int (baseSize l) * ((0.3 + 0.7 * 1.7) * 0.9)\<rfloor>) (fdnLines engine48k) =
        map (\<lambda>b. \<lfloor>real_of_int b * ((0.3 + 0.7 * 1.7) * 0.9)\<rfloor>) (map baseSize (fdnLines engine48k))"
    by (simp add: comp_def)
  also have "\<dots> = [1948, 2399, 2814, 3249, 3740, 4246, 4756, 5349]"
    by (simp add: engine48k_lines fdnBaseSizes_def)
  finally show ?thesis
    using upd_lines(1) [OF decayEngine_upd md] by (simp add: defaultParams_def modes_def)
qed

lemma decayEngine_avg:
  "avgDelaySeconds 48000 (fdnLines (decayEngine d z)) = Some (28501 / 384000)"
proof -
  let ?ls = "fdnLines (decayEngine d z)"
  have "length ?ls = 8"
    using arg_cong [OF decayEngine_sizes [of d z], of length] by simp
  moreover from this have "?ls \<noteq> []" by auto
  ultimately show ?thesis
    by (simp add: avgDelaySeconds_def foldl_size_sum decayEngine_sizes)
qed

lemma decayEngine_params:
  "decay (params (engine48k\<lparr>params := defaultParams\<lparr>decay := d, decayNegZero := z\<rparr>\<rparr>)) = d"
  "decayNegZero (params (engine48k\<lparr>params := defaultParams\<lparr>decay := d, decayNegZero := z\<rparr>\<rparr>)) = z"
  by simp_all

theorem feedbackGain_decay_as_given_witness:
  "updateInternalParams 48000 (\<lambda>k. 1 / 2)
     (engine48k\<lparr>params := defaultParams\<lparr>decay := 0, decayNegZero := True\<rparr>\<rparr>) =
     Inr (decayEngine 0 True) \<and>
   avgDelaySeconds 48000 (fdnLines (decayEngine 0 True)) = Some (28501 / 384000) \<and>
   fdnFeedback (decayEngine 0 True) = Some 0.985"
  using feedbackGain_decay_as_given [OF decayEngine_upd [where d = 0 and z = True] decayEngine_avg [of 0 True]]
    decayEngine_upd [where d = 0 and z = True] decayEngine_avg [of 0 True]
  by (simp add: decayEngine_params)

text \<open>The same update with \<open>+0\<close> for the decay leaves the gain \<open>0\<close>.\<close>

lemma positive_zero_decay_gain: "fdnFeedback (decayEngine 0 False) = Some 0"
  using upd_fdnFeedback [OF decayEngine_upd [where d = 0 and z = False]]
    feedbackGain_by_sign [OF decayEngine_avg [of 0 False], of 0 False]
  by (simp add: decayEngine_params)

lemma ten_powr_fifth: "(10 :: real) powr (- (1 / 5)) < 0.985"
proof (rule ccontr)
  assume "\<not> (10 :: real) powr (- (1 / 5)) < 0.985"
  then have "(0.985 :: real) \<le> 10 powr (- (1 / 5))" by simp
  then have "(0.985 :: real) ^ 5 \<le> (10 powr (- (1 / 5))) ^ 5"
    by (intro power_mono) simp_all
  moreover have "((10 :: real) powr (- (1 / 5))) ^ 5 = 10 powr (- 1)"
    by (simp add: powr_realpow [symmetric] powr_powr)
  moreover have "(10 :: real) powr (- 1) = 1 / 10"
    by (simp add: powr_minus_divide)
  ultimately show False by (simp add: power_def)
qed

lemma floored_below_cap:
  assumes "0 < eps" "eps \<le> 1"
  shows "feedbackGain_floored eps 48000
           (fdnLines (onmessage 48000 (\<lambda>k. 1 / 2) [(Decay, - 1)] engine48k)) (- 1)
         \<noteq> Some 0.985"
proof -
  let ?a = "28501 / 384000 :: real"
  have m: "max (- 1) eps = eps" using assms by simp
  have "3 * ?a / eps \<ge> 3 * ?a / 1"
    using assms by (intro divide_left_mono) simp_all
  then have "- 3 * ?a / eps \<le> - (1 / 5)" by simp
  then have "10 powr (- 3 * ?a / eps) \<le> (10 :: real) powr (- (1 / 5))"
    by (intro powr_mono) simp_all
  with ten_powr_fifth have "10 powr (- 3 * ?a / eps) < (0.985 :: real)" by linarith
  then have "min (10 powr (- 3 * ?a / eps)) 0.985 \<noteq> (0.985 :: real)" by simp
  moreover have "feedbackGain_floored eps 48000
           (fdnLines (onmessage 48000 (\<lambda>k. 1 / 2) [(Decay, - 1)] engine48k)) (- 1)
        = Some (min (10 powr (- 3 * ?a / eps)) 0.985)"
    unfolding feedbackGain_floored_def m onmessage_decay
    using feedbackGain_pos_decay [OF decayEngine_avg [of "- 1" False], of eps False] assms(1) by simp
  ultimately show ?thesis by simp
qed

text \<open>
  Claim C3 as stated fails at \<open>decay = -1\<close> (default record otherwise, 48 kHz): the gain
  is the cap \<open>0.985\<close>, which no floor \<open>eps\<close> in \<open>(0, 1]\<close> of the decay would give.
\<close>

theorem negative_decay_not_floored_counterexample:
  "fdnFeedback (onmessage 48000 (\<lambda>k. 1 / 2) [(Decay, - 1)] engine48k) = Some 0.985 \<and>
   \<not> (\<exists>eps. 0 < eps \<and> eps \<le> 1 \<and>
        feedbackGain_floored eps 48000
          (fdnLines (onmessage 48000 (\<lambda>k. 1 / 2) [(Decay, - 1)] engine48k)) (- 1)
        = fdnFeedback (onmessage 48000 (\<lambda>k. 1 / 2) [(Decay, - 1)] engine48k))"
proof -
  have g: "fdnFeedback (onmessage 48000 (\<lambda>k. 1 / 2) [(Decay, - 1)] engine48k) = Some 0.985"
    unfolding onmessage_decay
    using upd_fdnFeedback [OF decayEngine_upd [where d = "- 1" and z = False]]
      feedbackGain_by_sign [OF decayEngine_avg [of "- 1" False], of "- 1" False]
    by (simp add: decayEngine_params)
  show ?thesis
    unfolding g using floored_below_cap by blast
qed

section \<open>The soft clip\<close>


lemma knee_bound:
  fixes t :: real
  assumes "0 \<le> t"
  shows "0 \<le> t / (1 + (t / 0.5)\<^sup>2) \<and> t / (1 + (t / 0.5)\<^sup>2) \<le> 1 / 4"
proof -
  have pos: "0 < 1 + (t / 0.5)\<^sup>2"
    by (rule add_pos_nonneg) simp_all
  have sq: "(t / 0.5)\<^sup>2 = 4 * t\<^sup>2"
    by (simp add: power2_eq_square)
  have "0 \<le> (2 * t - 1)\<^sup>2" by simp
  then have "4 * t \<le> 1 + 4 * t\<^sup>2"
    by (simp add: power2_eq_square algebra_simps)
  then have "t \<le> (1 / 4) * (1 + (t / 0.5)\<^sup>2)"
    using sq by simp
  then have "t / (1 + (t / 0.5)\<^sup>2) \<le> 1 / 4"
    using pos by (simp add: pos_divide_le_eq)
  moreover have "0 \<le> t / (1 + (t / 0.5)\<^sup>2)"
    using assms pos by simp
  ultimately show ?thesis by simp
qed

lemma softClip_identity: "\<bar>x\<bar> \<le> 1.5 \<Longrightarrow> softClip x = x"
  unfolding softClip_def Let_def by auto

lemma softClip_above:
  assumes "x > 1.5"
  shows "1.5 \<le> softClip x \<and> softClip x \<le> 1.75"
proof -
  define t where "t = x - 1.5"
  have t: "0 \<le> t" using assms by (simp add: t_def)
  have "softClip x = 1.5 + t / (1 + (t / 0.5)\<^sup>2)"
    unfolding softClip_def Let_def t_def using assms by simp
  with knee_bound [OF t] show ?thesis by simp
qed

lemma softClip_below:
  assumes "x < - 1.5"
  shows "- 1.75 \<le> softClip x \<and> softClip x \<le> - 1.5"
proof -
  define t where "t = - (x + 1.5)"
  have t: "0 \<le> t" using assms by (simp add: t_def)
  have x: "x + 1.5 = - t" by (simp add: t_def)
  have "(x + 1.5) / (1 + ((x + 1.5) / 0.5)\<^sup>2) = - (t / (1 + (t / 0.5)\<^sup>2))"
    unfolding x by simp
  moreover have "softClip x = - 1.5 + (x + 1.5) / (1 + ((x + 1.5) / 0.5)\<^sup>2)"
    unfolding softClip_def Let_def using assms by simp
  ultimately have "softClip x = - 1.5 - t / (1 + (t / 0.5)\<^sup>2)"
    by simp
  with knee_bound [OF t] show ?thesis by simp
qed

lemma softClip_abs_le: "\<bar>softClip x\<bar> \<le> 1.75"
proof -
  consider "x > 1.5" | "x < - 1.5" | "\<bar>x\<bar> \<le> 1.5" by linarith
  then show ?thesis
  proof cases
    case 1
    with softClip_above [of x] show ?thesis by simp
  next
    case 2
    with softClip_below [of x] show ?thesis by simp
  next
    case 3
    then show ?thesis by (simp add: softClip_identity)
  qed
qed

text \<open>
  Claim C9.  The soft clip is the identity on \<open>[-1.5, 1.5]\<close>, and for every real input
  its value has magnitude at most \<open>1.75\<close>.
\<close>

theorem softClip_identity_and_bound:
  "(\<bar>x\<bar> \<le> 1.5 \<longrightarrow> softClip x = x) \<and> \<bar>softClip x\<bar> \<le> 1.75"
  using softClip_identity [of x] softClip_abs_le [of x] by blast

theorem softClip_identity_and_bound_witness:
  "\<bar>1 :: real\<bar> \<le> 1.5 \<and> softClip 1 = 1 \<and> \<bar>softClip 2\<bar> \<le> 1.75"
  using softClip_identity_and_bound [of 1] softClip_identity_and_bound [of 2]
  by auto

section \<open>One sample\<close>

lemma frontEnd_frame:
  "fdnLines (fst (frontEnd sr s a b)) = fdnLines s"
  "lfos (fst (frontEnd sr s a b)) = lfos s"
  "params (fst (frontEnd sr s a b)) = params s"
  "fdnMatrix (fst (frontEnd sr s a b)) = fdnMatrix s"
  "fdnFeedback (fst (frontEnd sr s a b)) = fdnFeedback s"
  "noiseGen (fst (frontEnd sr s a b)) = noiseGen s"
  "outputLP (fst (frontEnd sr s a b)) = outputLP s"
  "safetyThreshold (fst (frontEnd sr s a b)) = safetyThreshold s"
  "coeff (inputHP (fst (frontEnd sr s a b))) = coeff (inputHP s)"
  "stateL (inputHP (fst (frontEnd sr s a b))) = snd (processOnePoleHP (coeff (inputHP s)) (stateL (inputHP s)) a)"
  "stateR (inputHP (fst (frontEnd sr s a b))) = snd (processOnePoleHP (coeff (inputHP s)) (stateR (inputHP s)) b)"
  "fst (snd (frontEnd sr s a b)) = fst (processOnePoleHP (coeff (inputHP s)) (stateL (inputHP s)) a)"
  "fst (snd (snd (frontEnd sr s a b))) = fst (processOnePoleHP (coeff (inputHP s)) (stateR (inputHP s)) b)"
  by (simp_all add: frontEnd_def Let_def split: prod.splits)

lemma fdnReadAll_frontEnd: "fdnReadAll (fst (frontEnd sr s a b)) = fdnReadAll s"
  by (simp add: fdnReadAll_def lfoValues_def frontEnd_frame)

lemma process_sample_fdnLines:
  "fdnLines (fst (process_sample sr s a b)) =
     fst (fdnWriteBack (params s) (fdnFeedback s) (snd (snd (snd (snd (snd (frontEnd sr s a b))))))
            (matrixOut (fdnMatrix s) (fdnReadAll s)) 0 (fdnLines s) (noiseGen s))"
  using frontEnd_frame [of sr s a b] fdnReadAll_frontEnd [of sr s a b]
  by (auto simp: process_sample_def Let_def split: prod.splits)

lemma process_sample_frame:
  "lfos (fst (process_sample sr s a b)) = lfos s"
  "params (fst (process_sample sr s a b)) = params s"
  "fdnMatrix (fst (process_sample sr s a b)) = fdnMatrix s"
  "fdnFeedback (fst (process_sample sr s a b)) = fdnFeedback s"
  "coeff (inputHP (fst (process_sample sr s a b))) = coeff (inputHP s)"
  "stateL (inputHP (fst (process_sample sr s a b))) = snd (processOnePoleHP (coeff (inputHP s)) (stateL (inputHP s)) a)"
  "stateR (inputHP (fst (process_sample sr s a b))) = snd (processOnePoleHP (coeff (inputHP s)) (stateR (inputHP s)) b)"
  using frontEnd_frame [of sr s a b]
  by (auto simp: process_sample_def Let_def split: prod.splits)

lemma process_sample_out:
  "snd (process_sample sr s a b) =
     (let (lpL, lpR, wetL, wetR) =
            outputStage (fst (frontEnd sr s a b)) (fdnReadAll s)
              (fst (snd (snd (snd (frontEnd sr s a b)))))
              (fst (snd (snd (snd (snd (frontEnd sr s a b))))))
      in (mixClip (mix (params s)) (fst (processOnePoleHP (coeff (inputHP s)) (stateL (inputHP s)) a)) wetL,
          mixClip (mix (params s)) (fst (processOnePoleHP (coeff (inputHP s)) (stateR (inputHP s)) b)) wetR))"
  using frontEnd_frame [of sr s a b] fdnReadAll_frontEnd [of sr s a b]
  by (auto simp: process_sample_def Let_def split: prod.splits)

lemma js_rem_nonneg: "0 \<le> a \<Longrightarrow> 0 < b \<Longrightarrow> js_rem a b = Some (a mod b)"
  by (cases "a = 0") (simp_all add: js_rem_def)

lemma js_rem_small_neg: "a < 0 \<Longrightarrow> - b < a \<Longrightarrow> js_rem a b = Some a"
  by (simp add: js_rem_def)

lemma nextIndex_Some: "0 \<le> i \<Longrightarrow> 0 < sz \<Longrightarrow> nextIndex (Some i) sz = Some ((i + 1) mod sz)"
  by (simp add: nextIndex_def js_rem_nonneg)

lemma nextIndex_funpow:
  assumes "0 < sz" "0 \<le> i" "i < sz"
  shows "((\<lambda>io. nextIndex io sz) ^^ n) (Some i) = Some ((i + int n) mod sz)"
proof (induction n)
  case 0
  show ?case using assms by simp
next
  case (Suc n)
  have "0 \<le> (i + int n) mod sz" using assms(1) by simp
  then have "nextIndex (Some ((i + int n) mod sz)) sz = Some (((i + int n) mod sz + 1) mod sz)"
    using assms(1) by (rule nextIndex_Some)
  also have "((i + int n) mod sz + 1) mod sz = (i + int (Suc n)) mod sz"
    using mod_add_left_eq [of "i + int n" sz 1] by (simp add: ac_simps)
  finally show ?case using Suc.IH by simp
qed

subsection \<open>\<open>NaN\<close> through the write-back\<close>

lemma processOnePoleLP_None [simp]: "processOnePoleLP c st None = None"
  by (cases st) (simp_all add: processOnePoleLP_def)

lemma processOnePoleHP_None [simp]: "processOnePoleHP c st None = (None, None)"
  by (cases st) (simp_all add: processOnePoleHP_def)

lemma fdnFeedbackValue_None:
  "fst (fdnFeedbackValue p fb fi None idx l g) = None"
  "fst (snd (fdnFeedbackValue p fb fi None idx l g)) = None"
  by (simp_all add: fdnFeedbackValue_def Let_def split: prod.splits)

lemma fdnWriteLine_shape:
  "lineShape (fst (fdnWriteLine p fb fi mo idx l g)) = lineShape l"
  by (cases "line.index l")
     (auto simp: fdnWriteLine_def lineShape_def buf_set_def Let_def split: prod.splits)

lemma fdnWriteLine_index:
  "line.index (fst (fdnWriteLine p fb fi mo idx l g)) = nextIndex (line.index l) (line.size_smp l)"
  by (simp add: fdnWriteLine_def Let_def split: prod.splits)

lemma fdnWriteLine_buffer:
  "line.buffer (fst (fdnWriteLine p fb fi mo idx l g)) =
     buf_set (line.buffer l) (line.index l) (fst (fdnFeedbackValue p fb fi mo idx l g))"
  by (simp add: fdnWriteLine_def Let_def split: prod.splits)

lemma fdnWriteBack_Cons:
  "fst (fdnWriteBack p fb fi mo idx (l # ls) g) =
     fst (fdnWriteLine p fb fi (mo idx) idx l g) #
     fst (fdnWriteBack p fb fi mo (Suc idx) ls (snd (fdnWriteLine p fb fi (mo idx) idx l g)))"
  by (simp add: Let_def split: prod.splits)

lemma fdnWriteBack_length:
  "length (fst (fdnWriteBack p fb fi mo idx ls g)) = length ls"
proof (induction ls arbitrary: idx g)
  case Nil
  show ?case by simp
next
  case (Cons l ls)
  show ?case unfolding fdnWriteBack_Cons by (simp add: Cons.IH)
qed

lemma fdnWriteBack_nth:
  assumes "k < length ls"
  shows "\<exists>gk. fst (fdnWriteBack p fb fi mo idx ls g) ! k =
               fst (fdnWriteLine p fb fi (mo (idx + k)) (idx + k) (ls ! k) gk)"
  using assms
proof (induction ls arbitrary: idx g k)
  case Nil
  then show ?case by simp
next
  case (Cons l ls)
  show ?case
  proof (cases k)
    case 0
    then show ?thesis unfolding fdnWriteBack_Cons by (auto intro: exI [of _ g])
  next
    case (Suc j)
    then have "j < length ls" using Cons.prems by simp
    from Cons.IH [OF this, of "Suc idx"] Suc show ?thesis
      unfolding fdnWriteBack_Cons by simp
  qed
qed

lemma floor_neg_small:
  fixes m :: real
  assumes "\<bar>m\<bar> < 1"
  shows "\<lfloor>- m\<rfloor> = - 1 \<or> \<lfloor>- m\<rfloor> = 0"
proof -
  have "- 1 \<le> \<lfloor>- m\<rfloor>" using assms by (simp add: le_floor_iff)
  moreover have "\<lfloor>- m\<rfloor> < 1" using assms by (simp add: floor_less_iff)
  ultimately show ?thesis by linarith
qed

lemma readInterp_past_buffer:
  assumes i: "int (length buf) \<le> i" "0 < i" "i + 1 < sz" and m: "\<bar>m\<bar> < 1"
  shows "readInterp buf (Some i) sz (Some m) = None"
proof -
  define f where "f = \<lfloor>- m\<rfloor>"
  have f: "f = - 1 \<or> f = 0" unfolding f_def using m by (rule floor_neg_small)
  have "real_of_int i - real_of_int sz - m = - m + of_int (i - sz)" by simp
  then have "\<lfloor>real_of_int i - real_of_int sz - m\<rfloor> = \<lfloor>- m + of_int (i - sz)\<rfloor>" by simp
  also have "\<dots> = \<lfloor>- m\<rfloor> + (i - sz)" by (rule floor_add_int [symmetric])
  finally have ri: "\<lfloor>real_of_int i - real_of_int sz - m\<rfloor> = i - sz + f"
    unfolding f_def by simp
  have r2: "js_rem (i - sz + f + 1) sz = Some (i - sz + f + 1)"
    using f i by (intro js_rem_small_neg) auto
  have "js_rem (i + (f + 1)) sz = Some ((i + (f + 1)) mod sz)"
    using f i by (intro js_rem_nonneg) auto
  moreover have "(i + (f + 1)) mod sz = i + (f + 1)"
    using f i by auto
  ultimately have idx2: "js_rem (i + (f + 1)) sz = Some (i + (f + 1))" by simp
  have b2: "buf_get buf (i + (f + 1)) = None"
    using f i by (auto simp: buf_get_def)
  show ?thesis
    by (simp add: readInterp_def ri r2 idx2 b2 Let_def)
qed

lemma foldl_bind_None:
  "foldl (\<lambda>acc c. do { a \<leftarrow> acc; v \<leftarrow> g c; Some (h a c v) }) None xs = None"
  by (induction xs) simp_all

lemma foldl_bind_hits_None:
  assumes "col \<in> set xs" "g col = None"
  shows "foldl (\<lambda>acc c. do { a \<leftarrow> acc; v \<leftarrow> g c; Some (h a c v) }) acc xs = None"
  using assms(1)
proof (induction xs arbitrary: acc)
  case Nil
  then show ?case by simp
next
  case (Cons x xs)
  show ?case
  proof (cases "x = col")
    case True
    then show ?thesis by (simp add: assms(2) foldl_bind_None)
  next
    case False
    with Cons.prems have "col \<in> set xs" by simp
    then show ?thesis by (simp add: Cons.IH)
  qed
qed

lemma matrixRow_None:
  assumes "col < 8" "nth_num outs col = None"
  shows "matrixRow m outs row = None"
proof -
  have "col \<in> set [0..<8]" using assms(1) by simp
  then show ?thesis
    unfolding matrixRow_def by (rule foldl_bind_hits_None) (rule assms(2))
qed

lemma matrixOut_None:
  assumes "col < 8" "nth_num outs col = None"
  shows "matrixOut m outs row = None"
  by (simp add: matrixOut_def matrixRow_None [OF assms])

lemma outputStage_None:
  assumes "nth_num outs 7 = None"
  shows "outputStage s outs eL eR = (None, None, None, None)"
  by (simp add: outputStage_def assms Let_def)

lemma mixClip_None [simp]: "mixClip mx dry None = None"
  by (cases dry) (simp_all add: mixClip_def)

section \<open>Blocks\<close>


lemma process_sample_length:
  "length (fdnLines (fst (process_sample sr s a b))) = length (fdnLines s)"
  by (simp add: process_sample_fdnLines fdnWriteBack_length)

lemma process_sample_line:
  assumes "k < length (fdnLines s)"
  shows "\<exists>fi gk. fdnLines (fst (process_sample sr s a b)) ! k =
           fst (fdnWriteLine (params s) (fdnFeedback s) fi
                  (matrixOut (fdnMatrix s) (fdnReadAll s) k) k (fdnLines s ! k) gk)"
  using fdnWriteBack_nth [OF assms, of "params s" "fdnFeedback s"
      "snd (snd (snd (snd (snd (frontEnd sr s a b)))))" "matrixOut (fdnMatrix s) (fdnReadAll s)" 0 "noiseGen s"]
  unfolding process_sample_fdnLines by auto

lemma process_sample_lineAt:
  assumes "lineAt s k sh io"
  shows "lineAt (fst (process_sample sr s a b)) k sh (nextIndex io (fst sh))"
proof -
  from assms have k: "k < length (fdnLines s)" and sh: "lineShape (fdnLines s ! k) = sh"
    and io: "line.index (fdnLines s ! k) = io"
    by (simp_all add: lineAt_def)
  from process_sample_line [OF k, of sr a b] obtain fi gk where
    l: "fdnLines (fst (process_sample sr s a b)) ! k =
          fst (fdnWriteLine (params s) (fdnFeedback s) fi
                 (matrixOut (fdnMatrix s) (fdnReadAll s) k) k (fdnLines s ! k) gk)"
    by blast
  have "line.size_smp (fdnLines s ! k) = fst sh"
    using sh by (auto simp: lineShape_def)
  then show ?thesis
    unfolding lineAt_def l
    by (simp add: process_sample_length k fdnWriteLine_shape fdnWriteLine_index sh io)
qed

lemma process_loop_Cons:
  "fst (process_loop sr s (x # xs)) = fst (process_loop sr (fst (process_sample sr s (fst x) (snd x))) xs)"
  "snd (process_loop sr s (x # xs)) =
     snd (process_sample sr s (fst x) (snd x)) #
     snd (process_loop sr (fst (process_sample sr s (fst x) (snd x))) xs)"
  by (cases x; simp add: Let_def split: prod.splits)+

lemma process_loop_lineAt:
  assumes "lineAt s k sh io"
  shows "lineAt (fst (process_loop sr s ins)) k sh (((\<lambda>j. nextIndex j (fst sh)) ^^ length ins) io)"
  using assms
proof (induction ins arbitrary: s io)
  case Nil
  then show ?case by simp
next
  case (Cons x xs)
  have "((\<lambda>j. nextIndex j (fst sh)) ^^ length (x # xs)) io =
        ((\<lambda>j. nextIndex j (fst sh)) ^^ length xs) (nextIndex io (fst sh))"
    by (simp only: list.size funpow_Suc_right o_apply add_Suc_right add_0_right)
  with Cons.IH [OF process_sample_lineAt [OF Cons.prems, of sr "fst x" "snd x"]]
  show ?case unfolding process_loop_Cons by simp
qed

lemma process_loop_frame:
  "lfos (fst (process_loop sr s ins)) = lfos s"
  "params (fst (process_loop sr s ins)) = params s"
proof (induction ins arbitrary: s)
  case Nil
  { case 1 show ?case by simp }
  { case 2 show ?case by simp }
next
  case (Cons x xs)
  { case 1 show ?case unfolding process_loop_Cons by (simp add: Cons.IH process_sample_frame) }
  { case 2 show ?case unfolding process_loop_Cons by (simp add: Cons.IH process_sample_frame) }
qed

lemma updateLFOs_amp: "map amp (updateLFOs n ls) = map amp ls"
  by (simp add: updateLFOs_def Let_def comp_def)

lemma process_Cons:
  "fst (process sr (inL # others) s) =
     fst (process_loop sr (s\<lparr>lfos := updateLFOs (length inL) (lfos s)\<rparr>)
            (map (\<lambda>i. (nth_opt inL i, nth_opt (case others of [] \<Rightarrow> inL | r # _ \<Rightarrow> r) i)) [0..<length inL]))"
  "snd (process sr (inL # others) s) =
     Some (snd (process_loop sr (s\<lparr>lfos := updateLFOs (length inL) (lfos s)\<rparr>)
            (map (\<lambda>i. (nth_opt inL i, nth_opt (case others of [] \<Rightarrow> inL | r # _ \<Rightarrow> r) i)) [0..<length inL])))"
  by (simp_all add: process_def Let_def split: prod.splits)

lemma lineAt_lfos_update: "lineAt (s\<lparr>lfos := x\<rparr>) k sh io = lineAt s k sh io"
  by (simp add: lineAt_def)

lemma process_lineAt:
  assumes "lineAt s k sh io"
  shows "lineAt (fst (process sr (inL # others) s)) k sh
           (((\<lambda>j. nextIndex j (fst sh)) ^^ length inL) io)"
proof -
  have "lineAt (s\<lparr>lfos := updateLFOs (length inL) (lfos s)\<rparr>) k sh io"
    using assms by (simp add: lineAt_lfos_update)
  from process_loop_lineAt [OF this, of sr
      "map (\<lambda>i. (nth_opt inL i, nth_opt (case others of [] \<Rightarrow> inL | r # _ \<Rightarrow> r) i)) [0..<length inL]"]
  show ?thesis by (simp add: process_Cons)
qed

lemma process_amp: "map amp (lfos (fst (process sr input s))) = map amp (lfos s)"
proof (cases input)
  case Nil
  then show ?thesis by (simp add: process_def)
next
  case (Cons inL others)
  show ?thesis unfolding Cons process_Cons by (simp add: process_loop_frame updateLFOs_amp)
qed

lemma run_blocks_amp: "map amp (lfos (run_blocks sr input n s)) = map amp (lfos s)"
  by (induction n arbitrary: s) (simp_all add: process_amp)

lemma run_blocks_lineAt:
  assumes "lineAt s k sh io"
  shows "lineAt (run_blocks sr (inL # others) n s) k sh
           (((\<lambda>j. nextIndex j (fst sh)) ^^ (n * length inL)) io)"
  using assms
proof (induction n arbitrary: s io)
  case 0
  then show ?case by simp
next
  case (Suc n)
  have "((\<lambda>j. nextIndex j (fst sh)) ^^ (Suc n * length inL)) io =
        ((\<lambda>j. nextIndex j (fst sh)) ^^ (n * length inL))
          (((\<lambda>j. nextIndex j (fst sh)) ^^ length inL) io)"
  proof -
    have "Suc n * length inL = n * length inL + length inL" by simp
    then show ?thesis by (simp only: funpow_add o_apply)
  qed
  with Suc.IH [OF process_lineAt [OF Suc.prems, of sr inL others]]
  show ?case by simp
qed

section \<open>The preset \<open>medium-hall\<close> after 8192 samples\<close>

lemma upd_lfo_amp:
  assumes "updateInternalParams sr rnd s = Inr s'"
  shows "map amp (lfos s') = map amp (lfos s)"
  using assms
  by (auto intro!: nth_equalityI simp: updateInternalParams_def Let_def nth_enumerate_eq split: sum.splits)

lemma hallEngine_amp: "map amp (lfos hallEngine) = [1, 0.8, 0.9, 0.7]"
proof -
  have "map amp (lfos hallEngine) = map amp (lfos engine48k)"
    using upd_lfo_amp [OF hallEngine_upd] by simp
  also have "\<dots> = map amp (lfos (initialEngine 48000 (\<lambda>k. 1 / 2)))"
    by (rule upd_lfo_amp [OF engine48k_upd])
  also have "\<dots> = [1, 0.8, 0.9, 0.7]"
    by (simp add: initialEngine_def)
  finally show ?thesis .
qed

lemma hallEngine_lineAt:
  "lineAt hallEngine 7 (8321, 8192, 3 / 4) (Some 0)"
  "lineAt hallEngine 0 (3030, 8192, 3 / 4) (Some 0)"
proof -
  have len: "length (fdnLines hallEngine) = 8"
    using arg_cong [OF hallEngine_shape, of length] by simp
  have sh: "lineShape (fdnLines hallEngine ! k) = map lineShape (fdnLines hallEngine) ! k" if "k < 8" for k
    using that len by simp
  have ix: "line.index (fdnLines hallEngine ! k) = map line.index (fdnLines hallEngine) ! k" if "k < 8" for k
    using that len by simp
  show "lineAt hallEngine 7 (8321, 8192, 3 / 4) (Some 0)"
    unfolding lineAt_def using len sh [of 7] ix [of 7]
    by (simp add: hallEngine_shape hallEngine_index)
  show "lineAt hallEngine 0 (3030, 8192, 3 / 4) (Some 0)"
    unfolding lineAt_def using len sh [of 0] ix [of 0]
    by (simp add: hallEngine_shape hallEngine_index)
qed

lemma silence_Cons: "silence = replicate 128 0 # [replicate 128 0]"
  by (simp add: silence_def)

lemma after64_lineAt:
  "lineAt (run_blocks 48000 silence 64 hallEngine) 7 (8321, 8192, 3 / 4) (Some 8192)"
  "lineAt (run_blocks 48000 silence 64 hallEngine) 0 (3030, 8192, 3 / 4) (Some 2132)"
proof -
  have "((\<lambda>j. nextIndex j 8321) ^^ (64 * 128)) (Some 0) = Some ((0 + int (64 * 128)) mod 8321)"
    by (rule nextIndex_funpow) simp_all
  then have a: "((\<lambda>j. nextIndex j 8321) ^^ (64 * 128)) (Some 0) = Some 8192" by simp
  have "((\<lambda>j. nextIndex j 3030) ^^ (64 * 128)) (Some 0) = Some ((0 + int (64 * 128)) mod 3030)"
    by (rule nextIndex_funpow) simp_all
  then have b: "((\<lambda>j. nextIndex j 3030) ^^ (64 * 128)) (Some 0) = Some 2132" by simp
  show "lineAt (run_blocks 48000 silence 64 hallEngine) 7 (8321, 8192, 3 / 4) (Some 8192)"
    using run_blocks_lineAt [OF hallEngine_lineAt(1), of 48000 "replicate 128 0" "[replicate 128 0]" 64] a
    by (simp add: silence_Cons)
  show "lineAt (run_blocks 48000 silence 64 hallEngine) 0 (3030, 8192, 3 / 4) (Some 2132)"
    using run_blocks_lineAt [OF hallEngine_lineAt(2), of 48000 "replicate 128 0" "[replicate 128 0]" 64] b
    by (simp add: silence_Cons)
qed

lemma after64_amp: "map amp (lfos (run_blocks 48000 silence 64 hallEngine)) = [1, 0.8, 0.9, 0.7]"
  by (simp add: run_blocks_amp hallEngine_amp)

subsection \<open>A read past the end of the buffer\<close>

lemma lfo_mod_small:
  fixes d a x :: real
  assumes "\<bar>d\<bar> * \<bar>a\<bar> < 1"
  shows "\<bar>d * (sin x * a)\<bar> < 1"
proof -
  have "\<bar>d * (sin x * a)\<bar> = (\<bar>d\<bar> * \<bar>a\<bar>) * \<bar>sin x\<bar>"
    by (simp add: abs_mult)
  also have "\<dots> \<le> (\<bar>d\<bar> * \<bar>a\<bar>) * 1"
    by (intro mult_left_mono) simp_all
  finally show ?thesis using assms by simp
qed

lemma fdnReadAll_past_buffer:
  assumes l: "lineAt s 7 (sz, L, d) (Some i)"
    and i: "int L \<le> i" "0 < i" "i + 1 < sz"
    and a: "\<bar>d\<bar> * \<bar>amp (lfos s ! 3)\<bar> < 1"
  shows "nth_num (fdnReadAll s) 7 = None"
proof -
  from l have k: "7 < length (fdnLines s)"
    and sh: "line.size_smp (fdnLines s ! 7) = sz" "length (line.buffer (fdnLines s ! 7)) = L"
      "line.modDepth (fdnLines s ! 7) = d"
    and ix: "line.index (fdnLines s ! 7) = Some i"
    by (auto simp: lineAt_def lineShape_def)
  have v: "nth_opt (lfoValues s @ lfoValues s) 7 = Some (sin (phase (lfos s ! 3)) * amp (lfos s ! 3))"
    by (simp add: nth_opt_def lfoValues_def)
  have "nth_num (fdnReadAll s) 7 = fdnRead (lfoValues s) (7, fdnLines s ! 7)"
    using k by (simp add: nth_num_def fdnReadAll_def nth_enumerate_eq)
  also have "\<dots> = readInterp (line.buffer (fdnLines s ! 7)) (Some i) sz
                      (Some (d * (sin (phase (lfos s ! 3)) * amp (lfos s ! 3))))"
    by (simp add: fdnRead_def v sh ix)
  also have "\<dots> = None"
    using i sh(2) by (intro readInterp_past_buffer lfo_mod_small a) simp_all
  finally show ?thesis .
qed

lemma process_sample_nan:
  assumes "nth_num (fdnReadAll s) 7 = None"
  shows "snd (process_sample sr s a b) = (None, None)"
  unfolding process_sample_out by (simp add: outputStage_None [OF assms])

lemma process_loop_nth0:
  "snd (process_loop sr s (x # xs)) ! 0 = snd (process_sample sr s (fst x) (snd x))"
  by (simp add: process_loop_Cons)

lemma silence_inputs:
  "map (\<lambda>i. (nth_opt (replicate 128 (0::real)) i, nth_opt (replicate 128 (0::real)) i)) [0..<128] =
     (Some 0, Some 0) #
     map (\<lambda>i. (nth_opt (replicate 128 (0::real)) i, nth_opt (replicate 128 (0::real)) i)) [Suc 0..<128]"
  by (simp add: upt_conv_Cons nth_opt_def)

lemma process_silence:
  "fst (process sr silence s) =
     fst (process_loop sr (fst (process_sample sr (s\<lparr>lfos := updateLFOs 128 (lfos s)\<rparr>) (Some 0) (Some 0)))
            (map (\<lambda>i. (nth_opt (replicate 128 (0::real)) i, nth_opt (replicate 128 (0::real)) i)) [Suc 0..<128]))"
  "map_option (\<lambda>outs. outs ! 0) (snd (process sr silence s)) =
     Some (snd (process_sample sr (s\<lparr>lfos := updateLFOs 128 (lfos s)\<rparr>) (Some 0) (Some 0)))"
  unfolding silence_Cons process_Cons
  by (simp_all only: list.case length_replicate silence_inputs process_loop_Cons
        fst_conv snd_conv option.map nth_Cons_0)


lemma sample8192_lineAt:
  "lineAt sample8192 7 (8321, 8192, 3 / 4) (Some 8192)"
  "lineAt sample8192 0 (3030, 8192, 3 / 4) (Some 2132)"
  by (simp_all add: sample8192_def lineAt_lfos_update after64_lineAt)

lemma sample8192_read: "nth_num (fdnReadAll sample8192) 7 = None"
proof -
  have m: "map amp (lfos sample8192) = [1, 0.8, 0.9, 0.7]"
    by (simp add: sample8192_def updateLFOs_amp after64_amp)
  have "length (lfos sample8192) = length (map amp (lfos sample8192))" by simp
  also have "\<dots> = 4" unfolding m by simp
  finally have "amp (lfos sample8192 ! 3) = map amp (lfos sample8192) ! 3" by simp
  then have a: "amp (lfos sample8192 ! 3) = 0.7" by (simp add: m)
  show ?thesis
    by (rule fdnReadAll_past_buffer [OF sample8192_lineAt(1)]) (simp_all add: a)
qed

text \<open>
  Claim C1 at the preset \<open>medium-hall\<close>, 48 kHz, silent input: the first sample of the 65th
  block (sample 8192) is \<open>NaN\<close> on both channels, since the eighth line is read at cell
  8192 or 8193 of a buffer of 8192 cells.
\<close>

theorem hall_output_nan:
  "map_option (\<lambda>outs. outs ! 0)
     (snd (process 48000 silence (run_blocks 48000 silence 64 hallEngine))) = Some (None, None)"
  unfolding process_silence
  using process_sample_nan [OF sample8192_read, of 48000 "Some 0" "Some 0"]
  by (simp add: sample8192_def)

subsection \<open>What is stored into a line\<close>

lemma process_sample_cell:
  assumes "lineAt s k sh (Some i)" "0 \<le> c" "c \<noteq> i"
  shows "line.buffer (fdnLines (fst (process_sample sr s a b)) ! k) ! nat c =
         line.buffer (fdnLines s ! k) ! nat c"
proof -
  from assms(1) have k: "k < length (fdnLines s)" and ix: "line.index (fdnLines s ! k) = Some i"
    by (simp_all add: lineAt_def)
  from process_sample_line [OF k, of sr a b] obtain fi gk where
    l: "fdnLines (fst (process_sample sr s a b)) ! k =
          fst (fdnWriteLine (params s) (fdnFeedback s) fi
                 (matrixOut (fdnMatrix s) (fdnReadAll s) k) k (fdnLines s ! k) gk)"
    by blast
  show ?thesis
  proof (cases "0 \<le> i \<and> i < int (length (line.buffer (fdnLines s ! k)))")
    case True
    then have "nat i \<noteq> nat c" using assms(2,3) by arith
    then show ?thesis
      unfolding l fdnWriteLine_buffer ix using True by (simp add: buf_set_def)
  next
    case False
    then show ?thesis
      unfolding l fdnWriteLine_buffer ix by (auto simp: buf_set_def)
  qed
qed

lemma process_sample_writes_nan:
  assumes "lineAt s k (sz, L, d) (Some i)" "0 \<le> i" "i < int L" "k < 8"
    and "nth_num (fdnReadAll s) 7 = None"
  shows "line.buffer (fdnLines (fst (process_sample sr s a b)) ! k) ! nat i = None"
proof -
  from assms(1) have k: "k < length (fdnLines s)" and ix: "line.index (fdnLines s ! k) = Some i"
    and len: "length (line.buffer (fdnLines s ! k)) = L"
    by (auto simp: lineAt_def lineShape_def)
  from process_sample_line [OF k, of sr a b] obtain fi gk where
    l: "fdnLines (fst (process_sample sr s a b)) ! k =
          fst (fdnWriteLine (params s) (fdnFeedback s) fi
                 (matrixOut (fdnMatrix s) (fdnReadAll s) k) k (fdnLines s ! k) gk)"
    by blast
  have mo: "matrixOut (fdnMatrix s) (fdnReadAll s) k = None"
    by (rule matrixOut_None [OF _ assms(5)]) simp
  show ?thesis
    unfolding l fdnWriteLine_buffer ix mo fdnFeedbackValue_None
    using assms(2,3) len by (simp add: buf_set_def)
qed

lemma process_loop_cell:
  assumes "lineAt s k (sz, L, d) (Some i)" "0 \<le> c" "c < i" "i + int (length ins) \<le> sz"
  shows "line.buffer (fdnLines (fst (process_loop sr s ins)) ! k) ! nat c =
         line.buffer (fdnLines s ! k) ! nat c"
  using assms
proof (induction ins arbitrary: s i)
  case Nil
  then show ?case by simp
next
  case (Cons x xs)
  let ?s1 = "fst (process_sample sr s (fst x) (snd x))"
  have cell: "line.buffer (fdnLines ?s1 ! k) ! nat c = line.buffer (fdnLines s ! k) ! nat c"
    using Cons.prems by (intro process_sample_cell [of s k "(sz, L, d)" i]) simp_all
  show ?case
  proof (cases xs)
    case Nil
    then show ?thesis unfolding process_loop_Cons using cell by simp
  next
    case (Cons y ys)
    then have lt: "i + 1 < sz" using Cons.prems(4) \<open>c < i\<close> by simp
    have "0 \<le> i" using Cons.prems(2,3) by simp
    then have "nextIndex (Some i) sz = Some ((i + 1) mod sz)"
      using lt by (intro nextIndex_Some) simp_all
    also have "(i + 1) mod sz = i + 1" using lt \<open>0 \<le> i\<close> by simp
    finally have "lineAt ?s1 k (sz, L, d) (Some (i + 1))"
      using process_sample_lineAt [OF Cons.prems(1), of sr "fst x" "snd x"] by simp
    from Cons.IH [OF this \<open>0 \<le> c\<close>] Cons.prems(3,4)
    have "line.buffer (fdnLines (fst (process_loop sr ?s1 xs)) ! k) ! nat c =
          line.buffer (fdnLines ?s1 ! k) ! nat c"
      by simp
    then show ?thesis unfolding process_loop_Cons using cell by simp
  qed
qed

text \<open>
  Claim C10 at the same input: in that block the first line stores \<open>NaN\<close> into cell 2132
  of its buffer, and the cell still holds it at the end of the block.
\<close>

theorem hall_line_stores_nan:
  "line.buffer (fdnLines (fst (process 48000 silence (run_blocks 48000 silence 64 hallEngine))) ! 0) ! 2132
     = None"
proof -
  let ?s1 = "fst (process_sample 48000 sample8192 (Some 0) (Some 0))"
  let ?ins = "map (\<lambda>i. (nth_opt (replicate 128 (0::real)) i, nth_opt (replicate 128 (0::real)) i)) [Suc 0..<128]"
  have w: "line.buffer (fdnLines ?s1 ! 0) ! nat 2132 = None"
    by (rule process_sample_writes_nan [OF sample8192_lineAt(2) _ _ _ sample8192_read]) simp_all
  have "nextIndex (Some 2132) 3030 = Some 2133"
    by (simp add: nextIndex_Some)
  then have l: "lineAt ?s1 0 (3030, 8192, 3 / 4) (Some 2133)"
    using process_sample_lineAt [OF sample8192_lineAt(2), of 48000 "Some 0" "Some 0"] by simp
  have "line.buffer (fdnLines (fst (process_loop 48000 ?s1 ?ins)) ! 0) ! nat 2132 =
        line.buffer (fdnLines ?s1 ! 0) ! nat 2132"
    by (rule process_loop_cell [OF l]) simp_all
  with w show ?thesis
    unfolding process_silence sample8192_def by simp
qed

section \<open>The diffusion filter\<close>

lemma newApf_delayed: "allpassDelayed (newApf 142 g ph) v = Some 0"
proof -
  have r1: "js_rem (- 142) 142 = Some 0" by (simp add: js_rem_def)
  have r2: "js_rem (- 141) 142 = Some (- 141)" by (simp add: js_rem_def)
  have r3: "js_rem 142 142 = Some 0" "js_rem 1 142 = Some 1" by (simp_all add: js_rem_def)
  show ?thesis
    by (simp add: allpassDelayed_def newApf_def readInterp_def newFloat32Array_def
        r1 r2 r3 buf_get_def)
qed

text \<open>One step in general.  The two input terms of line 307 cancel: the value returned is
  \<open>(1 - g\<^sup>2) d\<close>, whatever the input \<open>x\<close>; the value stored at the current index is
  \<open>x + g d\<close>.\<close>

lemma processAllpass_step:
  assumes "allpassDelayed a lfoValue = Some d"
  shows "snd (processAllpass a (Some x) lfoValue) =
           Some (- apf.gain a * x + d + apf.gain a * (x - apf.gain a * d)) \<and>
         snd (processAllpass a (Some x) lfoValue) = Some ((1 - (apf.gain a)\<^sup>2) * d) \<and>
         apf.buffer (fst (processAllpass a (Some x) lfoValue)) =
           buf_set (apf.buffer a) (apf.index a) (Some (x + apf.gain a * d))"
  using assms by (simp add: processAllpass_def Let_def power2_eq_square algebra_simps)

lemma processAllpass_ignores_input:
  assumes "allpassDelayed a lfoValue = Some d"
  shows "snd (processAllpass a (Some x) lfoValue) = snd (processAllpass a (Some y) lfoValue)"
proof -
  have "snd (processAllpass a (Some x) lfoValue) = Some ((1 - (apf.gain a)\<^sup>2) * d)"
    using processAllpass_step [OF assms, of x] by blast
  moreover have "snd (processAllpass a (Some y) lfoValue) = Some ((1 - (apf.gain a)\<^sup>2) * d)"
    using processAllpass_step [OF assms, of y] by blast
  ultimately show ?thesis by (rule trans [OF _ sym])
qed

text \<open>
  Claim C5.  On the first diffusion filter as constructed (gain \<open>0.7\<close>, delay \<open>142\<close>, empty
  buffer, so \<open>d = 0\<close>) with the input \<open>1\<close>, the step of the code returns \<open>0\<close> and not the
  \<open>d + g (input - g d) = 0.7\<close> of the claim; the value it stores at the current index is the
  \<open>input + g d = 1\<close> of the claim.
\<close>

theorem allpass_impulse_output_zero:
  "allpassDelayed (newApf 142 0.7 0) 0 = Some 0 \<and>
   apf.gain (newApf 142 0.7 0) = 0.7 \<and>
   snd (processAllpass (newApf 142 0.7 0) (Some 1) 0) = Some 0 \<and>
   snd (processAllpass (newApf 142 0.7 0) (Some 1) 0) \<noteq>
     Some (0 + apf.gain (newApf 142 0.7 0) * (1 - apf.gain (newApf 142 0.7 0) * 0)) \<and>
   apf.buffer (fst (processAllpass (newApf 142 0.7 0) (Some 1) 0)) =
     (newFloat32Array 143)[0 := Some (1 + apf.gain (newApf 142 0.7 0) * 0)]"
  by (simp add: processAllpass_def newApf_delayed)
     (simp add: newApf_def buf_set_def newFloat32Array_def)


section \<open>The dry path\<close>

lemma js_rem_range:
  assumes "0 < b"
  shows "\<exists>r. js_rem a b = Some r \<and> - b < r \<and> r < b"
proof -
  define q where "q = \<bar>a\<bar> mod \<bar>b\<bar>"
  have q: "0 \<le> q" "q < b" using assms by (simp_all add: q_def)
  have "sgn a * q = q \<or> sgn a * q = - q \<or> sgn a * q = 0"
    by (cases "a < 0"; cases "a = 0") (simp_all add: sgn_if)
  with q have "- b < sgn a * q \<and> sgn a * q < b" by linarith
  then show ?thesis using assms by (simp add: js_rem_def q_def)
qed

lemma js_rem_wrap:
  assumes "0 < b"
  shows "\<exists>k. (do { r \<leftarrow> js_rem a b; js_rem (r + b) b }) = Some k \<and> 0 \<le> k \<and> k < b"
proof -
  from js_rem_range [OF assms, of a] obtain r where r: "js_rem a b = Some r" "- b < r" "r < b"
    by blast
  then have "js_rem (r + b) b = Some ((r + b) mod b)"
    using assms by (intro js_rem_nonneg) simp_all
  moreover have "0 \<le> (r + b) mod b \<and> (r + b) mod b < b" using assms by simp
  ultimately show ?thesis using r(1) by simp
qed

lemma buf_get_Some:
  assumes "None \<notin> set buf" "0 \<le> k" "k < int (length buf)"
  shows "\<exists>v. buf_get buf k = Some v"
proof -
  have "buf ! nat k \<in> set buf" using assms(2,3) by simp
  with assms(1) have "buf ! nat k \<noteq> None" by metis
  then show ?thesis using assms(2,3) by (auto simp: buf_get_def)
qed

lemma readInterp_Some:
  assumes "0 < sz" "sz \<le> int (length buf)" "None \<notin> set buf"
  shows "\<exists>v. readInterp buf (Some i) sz (Some m) = Some v"
proof -
  define readIdx where "readIdx = \<lfloor>real_of_int i - real_of_int sz - m\<rfloor>"
  from js_rem_wrap [OF assms(1), of readIdx] obtain k1 where
    k1: "(do { r \<leftarrow> js_rem readIdx sz; js_rem (r + sz) sz }) = Some k1" "0 \<le> k1" "k1 < sz" by blast
  from js_rem_wrap [OF assms(1), of "readIdx + 1"] obtain k2 where
    k2: "(do { r \<leftarrow> js_rem (readIdx + 1) sz; js_rem (r + sz) sz }) = Some k2" "0 \<le> k2" "k2 < sz" by blast
  from buf_get_Some [OF assms(3) k1(2)] k1(3) assms(2) obtain b1 where b1: "buf_get buf k1 = Some b1"
    by fastforce
  from buf_get_Some [OF assms(3) k2(2)] k2(3) assms(2) obtain b2 where b2: "buf_get buf k2 = Some b2"
    by fastforce
  from k1(1) obtain r1 where r1: "js_rem readIdx sz = Some r1" "js_rem (r1 + sz) sz = Some k1"
    by (cases "js_rem readIdx sz") simp_all
  from k2(1) obtain r2 where r2: "js_rem (readIdx + 1) sz = Some r2" "js_rem (r2 + sz) sz = Some k2"
    by (cases "js_rem (readIdx + 1) sz") simp_all
  show ?thesis
    unfolding readInterp_def
    by (simp add: Let_def readIdx_def [symmetric] r1 r2 b1 b2)
qed


lemma earlyTap_Some:
  assumes "tapOK d"
  shows "\<exists>v. snd (earlyTap pd d) = Some v"
proof -
  from assms obtain i where i: "delay.index d = Some i"
    "delay.size_smp d \<le> i + int (length (delay.buffer d))"
    and ne: "delay.buffer d \<noteq> []" and fin: "None \<notin> set (delay.buffer d)"
    by (fastforce simp: tapOK_def)
  let ?len = "int (length (delay.buffer d))"
  have len: "0 < ?len" using ne by simp
  have "js_rem (i - delay.size_smp d + ?len) ?len = Some ((i - delay.size_smp d + ?len) mod ?len)"
    using i(2) len by (intro js_rem_nonneg) simp_all
  moreover have "0 \<le> (i - delay.size_smp d + ?len) mod ?len"
    "(i - delay.size_smp d + ?len) mod ?len < ?len" using len by simp_all
  from buf_get_Some [OF fin this] obtain b where
    "buf_get (delay.buffer d) ((i - delay.size_smp d + ?len) mod ?len) = Some b" by blast
  ultimately show ?thesis
    by (simp add: earlyTap_def Let_def i(1))
qed

lemma earlyBank_Cons:
  "snd (earlyBank pd (d # ds) acc) =
     snd (earlyBank pd ds (do { e \<leftarrow> acc; x \<leftarrow> snd (earlyTap pd d); Some (e + x) }))"
  by (simp add: Let_def split: prod.splits)

lemma earlyBank_Some:
  assumes "\<forall>d \<in> set ds. tapOK d"
  shows "\<exists>v. snd (earlyBank pd ds (Some e)) = Some v"
  using assms
proof (induction ds arbitrary: e)
  case Nil
  then show ?case by simp
next
  case (Cons d ds)
  from Cons.prems have "tapOK d" by simp
  from earlyTap_Some [OF this, of pd] obtain c where c: "snd (earlyTap pd d) = Some c" by blast
  from Cons.prems have "\<forall>d \<in> set ds. tapOK d" by simp
  from Cons.IH [OF this, of "e + c"] obtain v where "snd (earlyBank pd ds (Some (e + c))) = Some v"
    by blast
  then show ?case unfolding earlyBank_Cons using c by simp
qed

lemma fdnReadAll_Some:
  assumes "k < length (fdnLines s)" "k < 8" "lineOK (fdnLines s ! k)"
  shows "\<exists>v. nth_num (fdnReadAll s) k = Some v"
proof -
  let ?l = "fdnLines s ! k"
  from assms(3) obtain i where i: "line.index ?l = Some i" by (auto simp: lineOK_def)
  have "length (lfoValues s @ lfoValues s) = 8" by (simp add: lfoValues_def)
  then obtain v where v: "nth_opt (lfoValues s @ lfoValues s) k = Some v"
    using assms(2) by (simp add: nth_opt_def)
  have "nth_num (fdnReadAll s) k = fdnRead (lfoValues s) (k, ?l)"
    using assms(1) by (simp add: nth_num_def fdnReadAll_def nth_enumerate_eq)
  also have "\<dots> = readInterp (line.buffer ?l) (Some i) (line.size_smp ?l) (Some (line.modDepth ?l * v))"
    by (simp add: fdnRead_def v i)
  finally show ?thesis
    using readInterp_Some [of "line.size_smp ?l" "line.buffer ?l" i "line.modDepth ?l * v"] assms(3)
    by (simp add: lineOK_def)
qed

lemma outputStage_Some:
  assumes outs: "\<And>k. k < 8 \<Longrightarrow> \<exists>v. nth_num outs k = Some v"
    and e: "eL = Some el" "eR = Some er"
    and st: "stateL (outputLP s) = Some sl" "stateR (outputLP s) = Some sr"
  shows "\<exists>lpl lpr wl wr. outputStage s outs eL eR = (Some lpl, Some lpr, Some wl, Some wr)"
proof -
  from outs [of 0] outs [of 1] outs [of 2] outs [of 3] outs [of 4] outs [of 5] outs [of 6] outs [of 7]
  obtain v0 v1 v2 v3 v4 v5 v6 v7 where v:
    "nth_num outs 0 = Some v0" "nth_num outs 1 = Some v1" "nth_num outs 2 = Some v2"
    "nth_num outs 3 = Some v3" "nth_num outs 4 = Some v4" "nth_num outs 5 = Some v5"
    "nth_num outs 6 = Some v6" "nth_num outs 7 = Some v7"
    by auto
  show ?thesis
    unfolding outputStage_def Let_def
    by (simp add: v e st processOnePoleLP_def del: One_nat_def)
qed

lemma frontEnd_early:
  "fst (snd (snd (snd (frontEnd sr s a b)))) =
     snd (earlyBank (preDelayRead sr s) (earlyDelays s) (Some 0))"
  "fst (snd (snd (snd (snd (frontEnd sr s a b))))) =
     snd (earlyBank (preDelayRead sr s) (earlyDelaysR s) (Some 0))"
  by (simp_all add: frontEnd_def Let_def split: prod.splits)

lemma mixClip_Some:
  "mixClip mx (Some d) (Some w) = Some (max (- 1) (min 1 (d * (1 - mx) + w * mx)))"
  by (simp add: mixClip_def)

lemma mixClip_range:
  assumes "mixClip mx d w = Some v"
  shows "- 1 \<le> v \<and> v \<le> 1"
  using assms by (cases d; cases w) (auto simp: mixClip_def)

lemma processOnePoleHP_Some:
  "processOnePoleHP c (Some st) (Some x) = (Some (x - st), Some (st + c * (x - st)))"
  by (simp add: processOnePoleHP_def)

lemma process_sample_number:
  assumes "wetReady s" "stateL (inputHP s) = Some stl" "stateR (inputHP s) = Some str"
  shows "\<exists>wl wr. snd (process_sample sr s (Some x) (Some y)) =
           (Some (max (- 1) (min 1 ((x - stl) * (1 - mix (params s)) + wl * mix (params s)))),
            Some (max (- 1) (min 1 ((y - str) * (1 - mix (params s)) + wr * mix (params s)))))"
proof -
  let ?f = "frontEnd sr s (Some x) (Some y)"
  from assms(1) have len: "length (fdnLines s) = 8"
    and lines: "\<forall>l \<in> set (fdnLines s). lineOK l"
    and taps: "\<forall>d \<in> set (earlyDelays s). tapOK d" "\<forall>d \<in> set (earlyDelaysR s). tapOK d"
    and lp: "stateL (outputLP s) \<noteq> None" "stateR (outputLP s) \<noteq> None"
    by (simp_all add: wetReady_def)
  have outs: "\<exists>v. nth_num (fdnReadAll s) k = Some v" if "k < 8" for k
    using that len lines by (intro fdnReadAll_Some) simp_all
  obtain el where el: "fst (snd (snd (snd ?f))) = Some el"
    unfolding frontEnd_early using earlyBank_Some [OF taps(1)] by blast
  obtain er where er: "fst (snd (snd (snd (snd ?f)))) = Some er"
    unfolding frontEnd_early using earlyBank_Some [OF taps(2)] by blast
  from lp obtain sl sr' where st: "stateL (outputLP (fst ?f)) = Some sl" "stateR (outputLP (fst ?f)) = Some sr'"
    by (auto simp: frontEnd_frame)
  from outputStage_Some [of "fdnReadAll s", OF outs el er st]
  obtain lpl lpr wl wr where
    "outputStage (fst ?f) (fdnReadAll s) (fst (snd (snd (snd ?f)))) (fst (snd (snd (snd (snd ?f))))) =
       (Some lpl, Some lpr, Some wl, Some wr)"
    by blast
  then have "snd (process_sample sr s (Some x) (Some y)) =
           (Some (max (- 1) (min 1 ((x - stl) * (1 - mix (params s)) + wl * mix (params s)))),
            Some (max (- 1) (min 1 ((y - str) * (1 - mix (params s)) + wr * mix (params s)))))"
    unfolding process_sample_out
    by (simp add: assms(2,3) processOnePoleHP_Some mixClip_Some)
  then show ?thesis by blast
qed

text \<open>
  Claim C6 as amended.  With \<open>mix = 0\<close>, an output pair of numbers is, on each channel, the
  input sample minus the state of the input high-pass filter of that channel, clipped to
  \<open>[-1, 1]\<close>.
\<close>

theorem bypass_output_is_filtered_input:
  assumes "mix (params s) = 0"
    and "snd (process_sample sr s (Some x) (Some y)) = (Some l, Some r)"
  shows "\<exists>stl str. stateL (inputHP s) = Some stl \<and> stateR (inputHP s) = Some str \<and>
           l = max (- 1) (min 1 (x - stl)) \<and> r = max (- 1) (min 1 (y - str))"
proof -
  let ?f = "frontEnd sr s (Some x) (Some y)"
  obtain lpL lpR wetL wetR where o:
    "outputStage (fst ?f) (fdnReadAll s) (fst (snd (snd (snd ?f)))) (fst (snd (snd (snd (snd ?f))))) =
       (lpL, lpR, wetL, wetR)"
    by (metis prod_cases4)
  from assms(2) have
    l: "mixClip 0 (fst (processOnePoleHP (coeff (inputHP s)) (stateL (inputHP s)) (Some x))) wetL = Some l"
    and r: "mixClip 0 (fst (processOnePoleHP (coeff (inputHP s)) (stateR (inputHP s)) (Some y))) wetR = Some r"
    unfolding process_sample_out o by (simp_all add: assms(1))
  from l obtain stl where "stateL (inputHP s) = Some stl" "l = max (- 1) (min 1 (x - stl))"
    by (cases "stateL (inputHP s)"; cases wetL) (simp_all add: mixClip_def processOnePoleHP_def)
  moreover from r obtain str where "stateR (inputHP s) = Some str" "r = max (- 1) (min 1 (y - str))"
    by (cases "stateR (inputHP s)"; cases wetR) (simp_all add: mixClip_def processOnePoleHP_def)
  ultimately show ?thesis by blast
qed

lemma upd_lineOK:
  assumes upd: "updateInternalParams sr rnd s = Inr s'"
    and md: "selectMode (mode (params s)) = Inr md"
    and ok: "\<forall>l \<in> set (fdnLines s). line.index l \<noteq> None \<and> None \<notin> set (line.buffer l) \<and>
               0 < \<lfloor>real_of_int (baseSize l) * ((0.3 + size_prm (params s) * 1.7) * sizeScale md)\<rfloor> \<and>
               \<lfloor>real_of_int (baseSize l) * ((0.3 + size_prm (params s) * 1.7) * sizeScale md)\<rfloor>
                 \<le> int (length (line.buffer l))"
  shows "\<forall>l \<in> set (fdnLines s'). lineOK l"
proof
  fix l assume "l \<in> set (fdnLines s')"
  then obtain k where k: "k < length (fdnLines s')" "l = fdnLines s' ! k"
    by (auto simp: in_set_conv_nth)
  then have k': "k < length (fdnLines s)" using upd_length_fdnLines [OF upd] by simp
  then have "fdnLines s ! k \<in> set (fdnLines s)" by simp
  with ok show "lineOK l"
    unfolding k(2) upd_fdnLines_nth [OF upd md k'] by (simp add: lineOK_def)
qed

lemma initial_lines_ok:
  "\<forall>l \<in> set (fdnLines (initialEngine sr rnd)).
     line.index l = Some 0 \<and> line.buffer l = newFloat32Array 8192"
  by (simp add: initial_fdnLines fdnBaseSizes_def)

lemma upd_lines_pointwise:
  assumes upd: "updateInternalParams sr rnd s = Inr s'"
    and P: "\<forall>l \<in> set (fdnLines s). line.index l = Some 0 \<and> line.buffer l = b"
  shows "\<forall>l \<in> set (fdnLines s'). line.index l = Some 0 \<and> line.buffer l = b"
proof
  fix l assume "l \<in> set (fdnLines s')"
  then obtain k where k: "k < length (fdnLines s')" "l = fdnLines s' ! k"
    by (auto simp: in_set_conv_nth)
  then have k': "k < length (fdnLines s)" using upd_length_fdnLines [OF upd] by simp
  then have "fdnLines s ! k \<in> set (fdnLines s)" by simp
  from upd obtain md where md: "selectMode (mode (params s)) = Inr md"
    by (rule updateInternalParams_Inr)
  from P \<open>fdnLines s ! k \<in> set (fdnLines s)\<close>
  show "line.index l = Some 0 \<and> line.buffer l = b"
    unfolding k(2) upd_fdnLines_nth [OF upd md k'] by simp
qed

lemma engine48k_lines_ok:
  "\<forall>l \<in> set (fdnLines engine48k). line.index l = Some 0 \<and> line.buffer l = newFloat32Array 8192"
  by (rule upd_lines_pointwise [OF engine48k_upd initial_lines_ok])

lemma bypassEngine_upd:
  "updateInternalParams 48000 (\<lambda>k. 1 / 2) (engine48k\<lparr>params := defaultParams\<lparr>mix := 0\<rparr>\<rparr>) =
     Inr bypassEngine"
proof -
  let ?s = "engine48k\<lparr>params := defaultParams\<lparr>mix := 0\<rparr>\<rparr>"
  have "selectMode (mode (params ?s)) = Inr (modes ! 0)"
    by (simp add: defaultParams_def selectMode_cases)
  from updateInternalParams_total [OF this, of 48000 "\<lambda>k. 1 / 2"]
  obtain s' where s': "updateInternalParams 48000 (\<lambda>k. 1 / 2) ?s = Inr s'" by blast
  then have "bypassEngine = s'"
    by (simp add: bypassEngine_def onmessage_def after_def Let_def params_engine48k)
  with s' show ?thesis by simp
qed

lemma bypassEngine_params: "params bypassEngine = defaultParams\<lparr>mix := 0\<rparr>"
  using upd_frame_rest [OF bypassEngine_upd] by simp

lemma bypassEngine_lines: "\<forall>l \<in> set (fdnLines bypassEngine). lineOK l"
proof -
  let ?s = "engine48k\<lparr>params := defaultParams\<lparr>mix := 0\<rparr>\<rparr>"
  have md: "selectMode (mode (params ?s)) = Inr (modes ! 0)"
    by (simp add: defaultParams_def selectMode_cases)
  have "\<forall>p \<in> set (map (\<lambda>l. (baseSize l, length (line.buffer l))) (fdnLines engine48k)).
          0 < \<lfloor>real_of_int (fst p) * ((0.3 + 0.7 * 1.7) * 0.9)\<rfloor> \<and>
          \<lfloor>real_of_int (fst p) * ((0.3 + 0.7 * 1.7) * 0.9)\<rfloor> \<le> int (snd p)"
    unfolding engine48k_base by simp
  then have "\<forall>l \<in> set (fdnLines engine48k).
          0 < \<lfloor>real_of_int (baseSize l) * ((0.3 + 0.7 * 1.7) * 0.9)\<rfloor> \<and>
          \<lfloor>real_of_int (baseSize l) * ((0.3 + 0.7 * 1.7) * 0.9)\<rfloor> \<le> int (length (line.buffer l))"
    by simp
  with engine48k_lines_ok show ?thesis
    by (intro upd_lineOK [OF bypassEngine_upd md])
       (auto simp: defaultParams_def modes_def newFloat32Array_def)
qed

lemma initial_taps:
  "\<forall>d \<in> set (earlyDelays (initialEngine 48000 rnd)). tapOK d"
  "\<forall>d \<in> set (earlyDelaysR (initialEngine 48000 rnd)). tapOK d"
  by (simp_all add: initialEngine_def earlyTaps_def tapOK_def newFloat32Array_def)

lemma bypassEngine_ready: "wetReady bypassEngine"
proof -
  note a = upd_frame_rest [OF engine48k_upd]
  note b = upd_frame_rest [OF bypassEngine_upd]
  have "length (fdnLines bypassEngine) = 8"
    using upd_length_fdnLines [OF bypassEngine_upd] arg_cong [OF engine48k_lines(1), of length]
    by (simp add: fdnBaseSizes_def)
  moreover have "\<forall>d \<in> set (earlyDelays bypassEngine). tapOK d"
    "\<forall>d \<in> set (earlyDelaysR bypassEngine). tapOK d"
    using a b initial_taps [of "\<lambda>k. 1 / 2"] by simp_all
  moreover have "stateL (outputLP bypassEngine) = Some 0" "stateR (outputLP bypassEngine) = Some 0"
    using a b by (simp_all add: initialEngine_def)
  ultimately show ?thesis
    using bypassEngine_lines by (simp add: wetReady_def)
qed

lemma upd_inputHP_coeff:
  assumes "updateInternalParams sr rnd s = Inr s'"
  shows "coeff (inputHP s') = onePoleCoeff (lowCutHz (params s)) sr * 0.05"
  using assms by (auto simp: updateInternalParams_def Let_def split: sum.splits)

lemma bypassEngine_inputHP:
  "stateL (inputHP bypassEngine) = Some 0" "stateR (inputHP bypassEngine) = Some 0"
  "coeff (inputHP bypassEngine) = onePoleCoeff 100 48000 * 0.05"
proof -
  note a = upd_frame_rest [OF engine48k_upd]
  note b = upd_frame_rest [OF bypassEngine_upd]
  show "stateL (inputHP bypassEngine) = Some 0" "stateR (inputHP bypassEngine) = Some 0"
    using a b by (simp_all add: initialEngine_def)
  show "coeff (inputHP bypassEngine) = onePoleCoeff 100 48000 * 0.05"
    using upd_inputHP_coeff [OF bypassEngine_upd] by (simp add: defaultParams_def)
qed

theorem bypass_output_is_filtered_input_witness:
  "mix (params bypassEngine) = 0 \<and>
   snd (process_sample 48000 bypassEngine (Some (1 / 2)) (Some (- (1 / 4)))) =
     (Some (1 / 2), Some (- (1 / 4)))"
proof -
  have m: "mix (params bypassEngine) = 0" by (simp add: bypassEngine_params)
  from process_sample_number [OF bypassEngine_ready bypassEngine_inputHP(1,2), of 48000 "1 / 2" "- (1 / 4)"]
  obtain l r where o: "snd (process_sample 48000 bypassEngine (Some (1 / 2)) (Some (- (1 / 4)))) = (Some l, Some r)"
    by blast
  from bypass_output_is_filtered_input [OF m o]
  have "l = 1 / 2" "r = - (1 / 4)" by (simp_all add: bypassEngine_inputHP)
  with m o show ?thesis by simp
qed

lemma inputHP_coeff_lower: "1 / 2420 \<le> onePoleCoeff 100 48000 * 0.05"
proof -
  define t :: real where "t = 2.0 * pi * 100 / 48000"
  have t: "1 / 120 \<le> t"
    using pi_ge_two by (simp add: t_def)
  have "1 + t \<le> exp t" by (rule exp_ge_add_one_self)
  then have "exp (- t) \<le> 1 / (1 + t)"
    using t by (simp add: exp_minus field_simps)
  also have "\<dots> \<le> 120 / 121"
    using t by (simp add: field_simps)
  finally have "1 / 121 \<le> 1 - exp (- t)" by simp
  then show ?thesis
    by (simp add: onePoleCoeff_def Let_def t_def)
qed

lemma two_ones:
  "map (\<lambda>i. (nth_opt [1, 1 :: real] i, nth_opt [1, 1 :: real] i)) [0..<length [1, 1 :: real]] =
     [(Some 1, Some 1), (Some 1, Some 1)]"
  by (simp add: nth_opt_def upt_rec)

text \<open>
  Claim C6 as stated fails on a new engine with \<open>mix = 0\<close> and the constant input \<open>1\<close>: the
  second output sample is not \<open>1\<close>; if it is a number it is at most \<open>1 - 1/2420\<close>, the input
  high-pass filter having taken its share.
\<close>

theorem bypass_dc_counterexample:
  "case snd (process 48000 [[1, 1], [1, 1]] bypassEngine) of
     None \<Rightarrow> False
   | Some outs \<Rightarrow> fst (outs ! 1) \<noteq> Some 1 \<and>
                   (case fst (outs ! 1) of None \<Rightarrow> True | Some v \<Rightarrow> v \<le> 1 - 1 / 2420)"
proof -
  define c :: real where "c = onePoleCoeff 100 48000 * 0.05"
  have c: "1 / 2420 \<le> c" unfolding c_def by (rule inputHP_coeff_lower)
  define X where "X = updateLFOs (length [1, 1 :: real]) (lfos bypassEngine)"
  let ?s0 = "bypassEngine\<lparr>lfos := X\<rparr>"
  let ?s1 = "fst (process_sample 48000 ?s0 (Some 1) (Some 1))"
  have st: "stateL (inputHP ?s1) = Some c" "coeff (inputHP ?s1) = c" "mix (params ?s1) = 0"
    by (simp_all add: process_sample_frame bypassEngine_inputHP processOnePoleHP_Some
        bypassEngine_params c_def)
  obtain lpL lpR wetL wetR where o:
    "outputStage (fst (frontEnd 48000 ?s1 (Some 1) (Some 1))) (fdnReadAll ?s1)
       (fst (snd (snd (snd (frontEnd 48000 ?s1 (Some 1) (Some 1))))))
       (fst (snd (snd (snd (snd (frontEnd 48000 ?s1 (Some 1) (Some 1))))))) = (lpL, lpR, wetL, wetR)"
    by (metis prod_cases4)
  have out: "fst (snd (process_sample 48000 ?s1 (Some 1) (Some 1))) = mixClip 0 (Some (1 - c)) wetL"
    unfolding process_sample_out o by (simp add: st processOnePoleHP_Some)
  have "snd (process 48000 [[1, 1], [1, 1]] bypassEngine) =
          Some [snd (process_sample 48000 ?s0 (Some 1) (Some 1)),
                snd (process_sample 48000 ?s1 (Some 1) (Some 1))]"
    unfolding process_Cons X_def [symmetric]
    by (simp only: list.case two_ones process_loop_Cons process_loop.simps(1) fst_conv snd_conv)
  moreover have "mixClip 0 (Some (1 - c)) wetL \<noteq> Some 1 \<and>
      (case mixClip 0 (Some (1 - c)) wetL of None \<Rightarrow> True | Some v \<Rightarrow> v \<le> 1 - 1 / 2420)"
  proof (cases wetL)
    case None
    then show ?thesis by (simp add: mixClip_def)
  next
    case (Some w)
    define v where "v = max (- 1) (min 1 ((1 - c) * (1 - 0) + w * 0))"
    have "v \<le> 1 - 1 / 2420" using c unfolding v_def max_def min_def by simp
    moreover from this have "v \<noteq> 1" by simp
    moreover have "mixClip 0 (Some (1 - c)) wetL = Some v"
      unfolding Some mixClip_Some v_def ..
    ultimately show ?thesis by simp
  qed
  ultimately show ?thesis by (simp add: out)
qed

section \<open>Values that are numbers stay in range\<close>

text \<open>Whatever the state, a value stored into a line is \<open>NaN\<close> or has magnitude at most
  \<open>0.9 \<times> 1.75 + 5 \<times> 10\<^sup>-\<^sup>6\<close>, and an output sample is \<open>NaN\<close> or lies in \<open>[-1, 1]\<close>.\<close>

lemma getVintageNoise_state: "fst (getVintageNoise g) < 2 ^ 31"
proof -
  have m: "(0x7fffffff :: nat) = mask 31" by (simp add: mask_eq_exp_minus_1)
  have "fst (getVintageNoise g) = take_bit 31 (fl53 (fl53 (g * 1103515245) + 12345))"
    unfolding getVintageNoise_def Let_def fst_conv m by (simp only: take_bit_eq_mask)
  then show ?thesis by (simp add: take_bit_eq_mod)
qed

lemma getVintageNoise_bound: "\<bar>snd (getVintageNoise g)\<bar> \<le> 5 / 1000000"
proof -
  define n where "n = fst (getVintageNoise g)"
  have "n < 2 ^ 31" unfolding n_def by (rule getVintageNoise_state)
  then have n: "real n \<le> 0x7fffffff" by simp
  have s: "snd (getVintageNoise g) = ((real n / 0x7fffffff) - 0.5) * 0.00001"
    by (simp add: getVintageNoise_def Let_def n_def)
  define q where "q = real n / 0x7fffffff"
  have "0 \<le> q" by (simp add: q_def)
  moreover have "q \<le> 1" using n by (simp add: q_def)
  ultimately have "\<bar>q - 0.5\<bar> \<le> 0.5" by linarith
  then have "\<bar>q - 0.5\<bar> * 0.00001 \<le> 0.5 * 0.00001"
    by (intro mult_right_mono) simp_all
  moreover have "\<bar>snd (getVintageNoise g)\<bar> = \<bar>q - 0.5\<bar> * 0.00001"
    unfolding s q_def by (simp only: abs_mult) simp
  ultimately show ?thesis by simp
qed

lemma saturated_bound: "\<bar>softClip (f * 1.2) * 0.9\<bar> \<le> 0.9 * 1.75"
proof -
  have "\<bar>softClip (f * 1.2) * 0.9\<bar> = \<bar>softClip (f * 1.2)\<bar> * 0.9" by (simp add: abs_mult)
  also have "\<dots> \<le> 1.75 * 0.9" by (intro mult_right_mono softClip_abs_le) simp
  finally show ?thesis by simp
qed

lemma fdnFeedbackValue_bound:
  assumes "0 \<le> vintage p" "vintage p \<le> 1"
    and "fst (fdnFeedbackValue p fb fi mo idx l g) = Some v"
  shows "\<bar>v\<bar> \<le> 0.9 * 1.75 + 5 / 1000000"
proof -
  define hpOut where
    "hpOut = fst (processOnePoleHP (hpCoeff l) (hpState l)
       (processOnePoleLP (dampCoeff l) (dampState l)
          (if idx < 4 then do { f \<leftarrow> do { m \<leftarrow> mo; f \<leftarrow> fb; Some (m * f) }; x \<leftarrow> fi; Some (f + x * 0.5) }
           else do { m \<leftarrow> mo; f \<leftarrow> fb; Some (m * f) })))"
  have val: "fst (fdnFeedbackValue p fb fi mo idx l g) =
      (if vintage p > 0
       then do { f \<leftarrow> hpOut; Some (softClip (f * 1.2) * 0.9 + snd (getVintageNoise g) * vintage p) }
       else do { f \<leftarrow> hpOut; Some (softClip (f * 1.2) * 0.9) })"
    by (cases hpOut) (auto simp: fdnFeedbackValue_def Let_def hpOut_def split: prod.splits)
  from assms(3) obtain f where f: "hpOut = Some f"
    unfolding val by (cases hpOut) (simp_all split: if_splits)
  have n: "\<bar>snd (getVintageNoise g) * vintage p\<bar> \<le> 5 / 1000000"
  proof -
    have "\<bar>snd (getVintageNoise g) * vintage p\<bar> = \<bar>snd (getVintageNoise g)\<bar> * vintage p"
      using assms(1) by (simp add: abs_mult)
    also have "\<dots> \<le> (5 / 1000000) * 1"
      using assms(1,2) by (intro mult_mono getVintageNoise_bound) simp_all
    finally show ?thesis by simp
  qed
  define A where "A = softClip (f * 1.2) * 0.9"
  define B where "B = snd (getVintageNoise g) * vintage p"
  have A: "\<bar>A\<bar> \<le> 0.9 * 1.75" unfolding A_def by (rule saturated_bound)
  have B: "\<bar>B\<bar> \<le> 5 / 1000000" unfolding B_def by (rule n)
  have "v = A + B \<or> v = A"
    using assms(3) unfolding val f A_def B_def by (simp split: if_splits)
  then show ?thesis
  proof
    assume "v = A + B"
    then have "\<bar>v\<bar> \<le> \<bar>A\<bar> + \<bar>B\<bar>" by (simp add: abs_triangle_ineq)
    with A B show ?thesis by linarith
  next
    assume "v = A"
    with A show ?thesis by linarith
  qed
qed

lemma process_sample_write_bound:
  assumes "0 \<le> vintage (params s)" "vintage (params s) \<le> 1" "k < length (fdnLines s)"
  shows "\<exists>w. line.buffer (fdnLines (fst (process_sample sr s a b)) ! k) =
               buf_set (line.buffer (fdnLines s ! k)) (line.index (fdnLines s ! k)) w \<and>
             (\<forall>v. w = Some v \<longrightarrow> \<bar>v\<bar> \<le> 0.9 * 1.75 + 5 / 1000000)"
proof -
  from process_sample_line [OF assms(3), of sr a b] obtain fi gk where
    l: "fdnLines (fst (process_sample sr s a b)) ! k =
          fst (fdnWriteLine (params s) (fdnFeedback s) fi
                 (matrixOut (fdnMatrix s) (fdnReadAll s) k) k (fdnLines s ! k) gk)"
    by blast
  show ?thesis
    unfolding l fdnWriteLine_buffer
    using fdnFeedbackValue_bound [OF assms(1,2)] by blast
qed

lemma process_sample_output_range:
  assumes "snd (process_sample sr s a b) = (outL, outR)"
  shows "(\<forall>v. outL = Some v \<longrightarrow> - 1 \<le> v \<and> v \<le> 1) \<and> (\<forall>v. outR = Some v \<longrightarrow> - 1 \<le> v \<and> v \<le> 1)"
  using assms unfolding process_sample_out
  by (auto simp: Let_def split: prod.splits dest: mixClip_range)

section \<open>Engines whose delays fit their buffers\<close>

text \<open>The results of this section are about the model's exact reals: a value too large for
  single precision, which a \<open>Float32Array\<close> stores as an infinity, does not occur in it.\<close>

subsection \<open>Buffers and indices\<close>

lemma buf_set_keeps_numbers:
  assumes "None \<notin> set b" "v \<noteq> None"
  shows "None \<notin> set (buf_set b io v)"
proof (cases io)
  case None
  then show ?thesis using assms by (simp add: buf_set_def)
next
  case (Some i)
  have "set (b[nat i := v]) \<subseteq> insert v (set b)" by (rule set_update_subset_insert)
  then have "None \<notin> set (b[nat i := v])" using assms by auto
  then show ?thesis using assms Some by (simp add: buf_set_def)
qed

lemma length_buf_set [simp]: "length (buf_set b io v) = length b"
  by (cases io) (simp_all add: buf_set_def)

lemma nextIndex_defined:
  assumes "io \<noteq> None" "sz \<noteq> 0"
  shows "nextIndex io sz \<noteq> None"
  using assms by (cases io) (simp_all add: nextIndex_def js_rem_def)

lemma nextIndex_nonneg:
  assumes "io = Some i" "0 \<le> i" "0 < sz"
  shows "\<exists>j. nextIndex io sz = Some j \<and> 0 \<le> j"
  using assms by (simp add: nextIndex_Some)

subsection \<open>Allpass filters\<close>

lemma processAllpass_OK:
  assumes "apfOK a" "x \<noteq> None"
  shows "apfOK (fst (processAllpass a x v)) \<and> snd (processAllpass a x v) \<noteq> None"
proof -
  from assms(1) obtain i where i: "apf.index a = Some i"
    and sz: "0 < apf.size_smp a" "apf.size_smp a \<le> int (length (apf.buffer a))"
    and fin: "None \<notin> set (apf.buffer a)"
    by (auto simp: apfOK_def)
  from assms(2) obtain xv where x: "x = Some xv" by auto
  from readInterp_Some [OF sz fin, of i "apf.modDepth a * v"]
  obtain d where d: "allpassDelayed a v = Some d"
    by (auto simp: allpassDelayed_def i)
  have "None \<notin> set (buf_set (apf.buffer a) (apf.index a) (Some (xv + apf.gain a * d)))"
    by (rule buf_set_keeps_numbers [OF fin]) simp
  moreover have "nextIndex (apf.index a) (apf.size_smp a) \<noteq> None"
    using i sz(1) by (intro nextIndex_defined) simp_all
  ultimately show ?thesis
    using sz by (simp add: processAllpass_def Let_def d x apfOK_def)
qed

lemma allpassChain_Cons:
  "fst (allpassChain sel idx (a # as) x) =
     fst (processAllpass a x (sel ! (idx mod length sel))) #
     fst (allpassChain sel (Suc idx) as (snd (processAllpass a x (sel ! (idx mod length sel)))))"
  "snd (allpassChain sel idx (a # as) x) =
     snd (allpassChain sel (Suc idx) as (snd (processAllpass a x (sel ! (idx mod length sel)))))"
  by (simp_all add: Let_def split: prod.splits)

lemma allpassChain_OK:
  assumes "\<forall>a \<in> set as. apfOK a" "x \<noteq> None"
  shows "(\<forall>a \<in> set (fst (allpassChain sel idx as x)). apfOK a) \<and> snd (allpassChain sel idx as x) \<noteq> None"
  using assms
proof (induction as arbitrary: idx x)
  case Nil
  then show ?case by simp
next
  case (Cons a as)
  from Cons.prems have a: "apfOK a" and as: "\<forall>a \<in> set as. apfOK a" by simp_all
  note p = processAllpass_OK [OF a Cons.prems(2), of "sel ! (idx mod length sel)"]
  from Cons.IH [OF as, of "snd (processAllpass a x (sel ! (idx mod length sel)))" "Suc idx"] p
  show ?case unfolding allpassChain_Cons by simp
qed

subsection \<open>Early taps\<close>

lemma earlyTap_OK:
  assumes "tapOK d" "pd \<noteq> None"
  shows "tapOK (fst (earlyTap pd d))"
proof -
  from assms(1) obtain i where i: "delay.index d = Some i" "0 \<le> i"
    and sz: "delay.size_smp d \<le> int (length (delay.buffer d))"
    and ne: "delay.buffer d \<noteq> []" and fin: "None \<notin> set (delay.buffer d)"
    by (auto simp: tapOK_def)
  have len: "0 < int (length (delay.buffer d))" using ne by simp
  from nextIndex_nonneg [OF i len] obtain j where
    j: "nextIndex (delay.index d) (int (length (delay.buffer d))) = Some j" "0 \<le> j" by blast
  have "None \<notin> set (buf_set (delay.buffer d) (delay.index d) pd)"
    by (rule buf_set_keeps_numbers [OF fin assms(2)])
  moreover have "buf_set (delay.buffer d) (delay.index d) pd \<noteq> []"
    using ne by (metis length_buf_set length_0_conv)
  ultimately show ?thesis
    using sz j by (simp add: earlyTap_def Let_def tapOK_def)
qed

lemma earlyBank_fst_Cons:
  "fst (earlyBank pd (d # ds) acc) =
     fst (earlyTap pd d) #
     fst (earlyBank pd ds (do { e \<leftarrow> acc; x \<leftarrow> snd (earlyTap pd d); Some (e + x) }))"
  by (simp add: Let_def split: prod.splits)

lemma earlyBank_fst:
  "fst (earlyBank pd ds acc) = map (\<lambda>d. fst (earlyTap pd d)) ds"
proof (induction ds arbitrary: acc)
  case Nil
  show ?case by simp
next
  case (Cons d ds)
  show ?case unfolding earlyBank_fst_Cons by (simp add: Cons.IH)
qed

lemma earlyBank_OK:
  assumes "\<forall>d \<in> set ds. tapOK d" "pd \<noteq> None"
  shows "\<forall>d \<in> set (fst (earlyBank pd ds acc)). tapOK d"
  using assms by (simp add: earlyBank_fst earlyTap_OK)

subsection \<open>The write-back\<close>

subsection \<open>write-back\<close>

lemma fdnFeedbackValue_number:
  assumes "mo \<noteq> None" "fb \<noteq> None" "fi \<noteq> None" "dampState l \<noteq> None" "hpState l \<noteq> None"
  shows "fst (fdnFeedbackValue p fb fi mo idx l g) \<noteq> None \<and>
         fst (snd (fdnFeedbackValue p fb fi mo idx l g)) \<noteq> None \<and>
         fst (snd (snd (fdnFeedbackValue p fb fi mo idx l g))) \<noteq> None"
proof -
  from assms obtain m f x ds hs where
    v: "mo = Some m" "fb = Some f" "fi = Some x" "dampState l = Some ds" "hpState l = Some hs"
    by auto
  define fb0 where "fb0 = (if idx < 4 then m * f + x * 0.5 else m * f)"
  define dS where "dS = ds + dampCoeff l * (fb0 - ds)"
  define hO where "hO = dS - hs"
  have "fdnFeedbackValue p fb fi mo idx l g =
     (if vintage p > 0
      then (Some (softClip (hO * 1.2) * 0.9 + snd (getVintageNoise g) * vintage p),
            Some dS, Some (hs + hpCoeff l * hO), fst (getVintageNoise g))
      else (Some (softClip (hO * 1.2) * 0.9), Some dS, Some (hs + hpCoeff l * hO), g))"
    unfolding fdnFeedbackValue_def Let_def v processOnePoleLP_def processOnePoleHP_def
      hO_def dS_def fb0_def
    by (simp split: prod.splits)
  then show ?thesis by (simp del: not_None_eq)
qed

lemma fdnWriteLine_states:
  "dampState (fst (fdnWriteLine p fb fi mo idx l g)) = fst (snd (fdnFeedbackValue p fb fi mo idx l g))"
  "hpState (fst (fdnWriteLine p fb fi mo idx l g)) = fst (snd (snd (fdnFeedbackValue p fb fi mo idx l g)))"
  "line.size_smp (fst (fdnWriteLine p fb fi mo idx l g)) = line.size_smp l"
  by (simp_all add: fdnWriteLine_def Let_def split: prod.splits)

lemma fdnWriteLine_OK:
  assumes "lineOK l" "dampState l \<noteq> None" "hpState l \<noteq> None"
    and "mo \<noteq> None" "fb \<noteq> None" "fi \<noteq> None"
  shows "lineOK (fst (fdnWriteLine p fb fi mo idx l g)) \<and>
         dampState (fst (fdnWriteLine p fb fi mo idx l g)) \<noteq> None \<and>
         hpState (fst (fdnWriteLine p fb fi mo idx l g)) \<noteq> None"
proof -
  note v = fdnFeedbackValue_number [OF assms(4,5,6,2,3), of p idx g]
  from assms(1) have ix: "line.index l \<noteq> None" and sz: "0 < line.size_smp l"
    "line.size_smp l \<le> int (length (line.buffer l))" and fin: "None \<notin> set (line.buffer l)"
    by (simp_all add: lineOK_def)
  have "None \<notin> set (buf_set (line.buffer l) (line.index l) (fst (fdnFeedbackValue p fb fi mo idx l g)))"
    using v by (intro buf_set_keeps_numbers [OF fin]) simp
  moreover have "nextIndex (line.index l) (line.size_smp l) \<noteq> None"
    using ix sz(1) by (intro nextIndex_defined) simp_all
  ultimately show ?thesis
    using v sz
    by (simp add: lineOK_def fdnWriteLine_states fdnWriteLine_buffer fdnWriteLine_index)
qed

lemma fdnWriteBack_OK:
  assumes ok: "\<forall>l \<in> set ls. lineOK l \<and> dampState l \<noteq> None \<and> hpState l \<noteq> None"
    and mo: "\<forall>k < length ls. mo (idx + k) \<noteq> None" and "fb \<noteq> None" "fi \<noteq> None"
  shows "\<forall>l \<in> set (fst (fdnWriteBack p fb fi mo idx ls g)).
           lineOK l \<and> dampState l \<noteq> None \<and> hpState l \<noteq> None"
proof
  fix l assume "l \<in> set (fst (fdnWriteBack p fb fi mo idx ls g))"
  then obtain k where k: "k < length ls" "l = fst (fdnWriteBack p fb fi mo idx ls g) ! k"
    by (auto simp: in_set_conv_nth fdnWriteBack_length)
  from fdnWriteBack_nth [OF k(1), of p fb fi mo idx g] obtain gk where
    l: "l = fst (fdnWriteLine p fb fi (mo (idx + k)) (idx + k) (ls ! k) gk)"
    using k(2) by auto
  have "ls ! k \<in> set ls" using k(1) by simp
  with ok have "lineOK (ls ! k)" "dampState (ls ! k) \<noteq> None" "hpState (ls ! k) \<noteq> None"
    by simp_all
  from fdnWriteLine_OK [OF this _ assms(3,4)] mo k(1)
  show "lineOK l \<and> dampState l \<noteq> None \<and> hpState l \<noteq> None"
    unfolding l by simp
qed

lemma foldl_bind_number:
  assumes "\<forall>c \<in> set xs. g c \<noteq> None" "acc \<noteq> None"
  shows "foldl (\<lambda>acc c. do { a \<leftarrow> acc; v \<leftarrow> g c; Some (h a c v) }) acc xs \<noteq> None"
  using assms
proof (induction xs arbitrary: acc)
  case Nil
  then show ?case by simp
next
  case (Cons x xs)
  from Cons.prems obtain a v where "acc = Some a" "g x = Some v" by auto
  then have "(do { a \<leftarrow> acc; v \<leftarrow> g x; Some (h a x v) }) \<noteq> None" by simp
  with Cons.IH Cons.prems(1) show ?case by simp
qed

lemma matrixOut_number:
  assumes "\<forall>col < 8. nth_num outs col \<noteq> None" "row < 8"
  shows "matrixOut m outs row \<noteq> None"
proof -
  have "\<forall>c \<in> set [0..<8]. nth_num outs c \<noteq> None" using assms(1) by simp
  from foldl_bind_number [of "[0..<8]" "nth_num outs", OF this, of "Some 0" "\<lambda>a c v. a + m row c * v"]
  show ?thesis using assms(2) by (simp add: matrixOut_def matrixRow_def)
qed

subsection \<open>The front end\<close>

lemma preDelayRead_Some:
  assumes "preDelayIndex s = Some i" "0 \<le> i" "0 < maxPreDelay s"
    "maxPreDelay s \<le> int (length (preDelayBuffer s))" "None \<notin> set (preDelayBuffer s)"
    "\<lfloor>(preDelayMs (params s) / 1000) * sr\<rfloor> \<le> maxPreDelay s"
  shows "\<exists>v. preDelayRead sr s = Some v"
proof -
  define t where "t = \<lfloor>(preDelayMs (params s) / 1000) * sr\<rfloor>"
  have nn: "0 \<le> i - t + maxPreDelay s" using assms(2,6) by (simp add: t_def)
  have r: "js_rem (i - t + maxPreDelay s) (maxPreDelay s) = Some ((i - t + maxPreDelay s) mod maxPreDelay s)"
    by (rule js_rem_nonneg [OF nn assms(3)])
  define k where "k = (i - t + maxPreDelay s) mod maxPreDelay s"
  have "k < maxPreDelay s" unfolding k_def by (rule pos_mod_bound [OF assms(3)])
  moreover have "0 \<le> k" unfolding k_def by (rule pos_mod_sign [OF assms(3)])
  ultimately have "0 \<le> k" "k < int (length (preDelayBuffer s))" using assms(4) by linarith+
  from buf_get_Some [OF assms(5) this] obtain v where
    "buf_get (preDelayBuffer s) k = Some v" by blast
  then show ?thesis
    unfolding preDelayRead_def Let_def t_def [symmetric] assms(1) by (simp add: r k_def)
qed

lemma frontEnd_state:
  "preDelayBuffer (fst (frontEnd sr s a b)) =
     buf_set (preDelayBuffer s) (preDelayIndex s)
       (do { l \<leftarrow> fst (processOnePoleHP (coeff (inputHP s)) (stateL (inputHP s)) a);
             r \<leftarrow> fst (processOnePoleHP (coeff (inputHP s)) (stateR (inputHP s)) b);
             Some ((l + r) * 0.5) })"
  "preDelayIndex (fst (frontEnd sr s a b)) = nextIndex (preDelayIndex s) (maxPreDelay s)"
  "maxPreDelay (fst (frontEnd sr s a b)) = maxPreDelay s"
  "earlyDelays (fst (frontEnd sr s a b)) = fst (earlyBank (preDelayRead sr s) (earlyDelays s) (Some 0))"
  "earlyDelaysR (fst (frontEnd sr s a b)) = fst (earlyBank (preDelayRead sr s) (earlyDelaysR s) (Some 0))"
  by (simp_all add: frontEnd_def Let_def split: prod.splits)

lemma frontEnd_diffusion:
  "diffusionA (fst (frontEnd sr s a b)) =
       fst (allpassChain (selA s) 0 (diffusionA s) (diffIn sr s (earlyDelays s)))"
  "diffusionB (fst (frontEnd sr s a b)) =
       fst (allpassChain (selB s) 0 (diffusionB s)
              (snd (allpassChain (selA s) 0 (diffusionA s) (diffIn sr s (earlyDelays s)))))"
  "diffusionAR (fst (frontEnd sr s a b)) =
       fst (allpassChain (selAR s) 0 (diffusionAR s) (diffIn sr s (earlyDelaysR s)))"
  "diffusionBR (fst (frontEnd sr s a b)) =
       fst (allpassChain (selBR s) 0 (diffusionBR s)
              (snd (allpassChain (selAR s) 0 (diffusionAR s) (diffIn sr s (earlyDelaysR s)))))"
  "snd (snd (snd (snd (snd (frontEnd sr s a b))))) =
      do { l \<leftarrow> snd (allpassChain (selB s) 0 (diffusionB s)
              (snd (allpassChain (selA s) 0 (diffusionA s) (diffIn sr s (earlyDelays s)))));
           r \<leftarrow> snd (allpassChain (selBR s) 0 (diffusionBR s)
              (snd (allpassChain (selAR s) 0 (diffusionAR s) (diffIn sr s (earlyDelaysR s)))));
           Some ((l + r) * 0.5) }"
  unfolding frontEnd_def Let_def diffIn_def selA_def selB_def selAR_def selBR_def
  by (simp_all split: prod.splits del: One_nat_def)

subsection \<open>One sample keeps the engine sound\<close>

lemma process_sample_front:
  "earlyDelays (fst (process_sample sr s a b)) = earlyDelays (fst (frontEnd sr s a b))"
  "earlyDelaysR (fst (process_sample sr s a b)) = earlyDelaysR (fst (frontEnd sr s a b))"
  "diffusionA (fst (process_sample sr s a b)) = diffusionA (fst (frontEnd sr s a b))"
  "diffusionAR (fst (process_sample sr s a b)) = diffusionAR (fst (frontEnd sr s a b))"
  "diffusionB (fst (process_sample sr s a b)) = diffusionB (fst (frontEnd sr s a b))"
  "diffusionBR (fst (process_sample sr s a b)) = diffusionBR (fst (frontEnd sr s a b))"
  "preDelayBuffer (fst (process_sample sr s a b)) = preDelayBuffer (fst (frontEnd sr s a b))"
  "preDelayIndex (fst (process_sample sr s a b)) = preDelayIndex (fst (frontEnd sr s a b))"
  "maxPreDelay (fst (process_sample sr s a b)) = maxPreDelay (fst (frontEnd sr s a b))"
  by (simp_all add: process_sample_def Let_def split: prod.splits)

lemma process_sample_outputLP:
  "stateL (outputLP (fst (process_sample sr s a b))) =
     fst (outputStage (fst (frontEnd sr s a b)) (fdnReadAll s)
            (fst (snd (snd (snd (frontEnd sr s a b)))))
            (fst (snd (snd (snd (snd (frontEnd sr s a b)))))))"
  "stateR (outputLP (fst (process_sample sr s a b))) =
     fst (snd (outputStage (fst (frontEnd sr s a b)) (fdnReadAll s)
            (fst (snd (snd (snd (frontEnd sr s a b)))))
            (fst (snd (snd (snd (snd (frontEnd sr s a b))))))))"
  using fdnReadAll_frontEnd [of sr s a b]
  by (auto simp: process_sample_def Let_def split: prod.splits)

lemma diffIn_Some:
  assumes "preDelayRead sr s \<noteq> None" "\<forall>d \<in> set ds. tapOK d"
  shows "diffIn sr s ds \<noteq> None"
proof -
  from assms(1) obtain d where d: "preDelayRead sr s = Some d" by auto
  from earlyBank_Some [OF assms(2), of "preDelayRead sr s" 0] obtain e where
    "snd (earlyBank (preDelayRead sr s) ds (Some 0)) = Some e" by blast
  then show ?thesis by (simp add: diffIn_def d)
qed

theorem process_sample_OK:
  assumes ok: "engineOK sr s"
  shows "engineOK sr (fst (process_sample sr s (Some x) (Some y)))"
proof -
  let ?f = "frontEnd sr s (Some x) (Some y)"
  let ?s' = "fst (process_sample sr s (Some x) (Some y))"
  from ok have wet: "wetReady s"
    and st: "\<forall>l \<in> set (fdnLines s). dampState l \<noteq> None \<and> hpState l \<noteq> None"
    and apf: "\<forall>a \<in> set (diffusionA s). apfOK a" "\<forall>a \<in> set (diffusionAR s). apfOK a"
             "\<forall>a \<in> set (diffusionB s). apfOK a" "\<forall>a \<in> set (diffusionBR s). apfOK a"
    and pdi: "\<exists>i. preDelayIndex s = Some i \<and> 0 \<le> i"
    and mx: "0 < maxPreDelay s" "maxPreDelay s \<le> int (length (preDelayBuffer s))"
    and pdb: "None \<notin> set (preDelayBuffer s)"
    and pdt: "\<lfloor>(preDelayMs (params s) / 1000) * sr\<rfloor> \<le> maxPreDelay s"
    and hp: "stateL (inputHP s) \<noteq> None" "stateR (inputHP s) \<noteq> None"
    and fb: "fdnFeedback s \<noteq> None"
    by (simp_all add: engineOK_def)
  from wet have len: "length (fdnLines s) = 8"
    and lines: "\<forall>l \<in> set (fdnLines s). lineOK l"
    and taps: "\<forall>d \<in> set (earlyDelays s). tapOK d" "\<forall>d \<in> set (earlyDelaysR s). tapOK d"
    and lp: "stateL (outputLP s) \<noteq> None" "stateR (outputLP s) \<noteq> None"
    by (simp_all add: wetReady_def)
  from pdi obtain i where i: "preDelayIndex s = Some i" "0 \<le> i" by blast
  from hp obtain stl str where hps: "stateL (inputHP s) = Some stl" "stateR (inputHP s) = Some str"
    by auto
  from preDelayRead_Some [OF i mx pdb pdt] have pd: "preDelayRead sr s \<noteq> None" by auto
  \<comment> \<open>the reads of the lines\<close>
  have outs: "\<exists>v. nth_num (fdnReadAll s) k = Some v" if "k < 8" for k
    using that len lines by (intro fdnReadAll_Some) simp_all
  then have outs': "\<forall>col < 8. nth_num (fdnReadAll s) col \<noteq> None" by fastforce
  \<comment> \<open>diffusion\<close>
  note dL = diffIn_Some [OF pd taps(1)]
  note dR = diffIn_Some [OF pd taps(2)]
  note cA = allpassChain_OK [OF apf(1) dL, of "selA s" 0]
  note cAR = allpassChain_OK [OF apf(2) dR, of "selAR s" 0]
  from cA have cA2: "snd (allpassChain (selA s) 0 (diffusionA s) (diffIn sr s (earlyDelays s))) \<noteq> None"
    by simp
  from cAR have cAR2: "snd (allpassChain (selAR s) 0 (diffusionAR s) (diffIn sr s (earlyDelaysR s))) \<noteq> None"
    by simp
  note cB = allpassChain_OK [OF apf(3) cA2, of "selB s" 0]
  note cBR = allpassChain_OK [OF apf(4) cAR2, of "selBR s" 0]
  have fi: "snd (snd (snd (snd (snd ?f)))) \<noteq> None"
  proof -
    from cB cBR obtain l r where
      "snd (allpassChain (selB s) 0 (diffusionB s)
              (snd (allpassChain (selA s) 0 (diffusionA s) (diffIn sr s (earlyDelays s))))) = Some l"
      "snd (allpassChain (selBR s) 0 (diffusionBR s)
              (snd (allpassChain (selAR s) 0 (diffusionAR s) (diffIn sr s (earlyDelaysR s))))) = Some r"
      by auto
    then show ?thesis unfolding frontEnd_diffusion by (simp del: not_None_eq)
  qed
  \<comment> \<open>the lines after the write\<close>
  have mo: "\<forall>k < length (fdnLines s). matrixOut (fdnMatrix s) (fdnReadAll s) (0 + k) \<noteq> None"
    using matrixOut_number [OF outs'] len by simp
  have l1: "\<forall>l \<in> set (fdnLines s). lineOK l \<and> dampState l \<noteq> None \<and> hpState l \<noteq> None"
    using lines st by simp
  note wb = fdnWriteBack_OK [OF l1 mo fb fi, of "params s" "noiseGen s"]
  have lines': "\<forall>l \<in> set (fdnLines ?s'). lineOK l \<and> dampState l \<noteq> None \<and> hpState l \<noteq> None"
    unfolding process_sample_fdnLines by (rule wb)
  \<comment> \<open>the output filters\<close>
  obtain el where el: "fst (snd (snd (snd ?f))) = Some el"
    unfolding frontEnd_early using earlyBank_Some [OF taps(1)] by blast
  obtain er where er: "fst (snd (snd (snd (snd ?f)))) = Some er"
    unfolding frontEnd_early using earlyBank_Some [OF taps(2)] by blast
  from lp obtain sl sr' where lps: "stateL (outputLP (fst ?f)) = Some sl" "stateR (outputLP (fst ?f)) = Some sr'"
    by (auto simp: frontEnd_frame)
  have "\<exists>lpl lpr wl wr. outputStage (fst ?f) (fdnReadAll s) (Some el) (Some er) =
          (Some lpl, Some lpr, Some wl, Some wr)"
    by (rule outputStage_Some [OF outs refl refl lps])
  then obtain lpl lpr wl wr where
    os: "outputStage (fst ?f) (fdnReadAll s) (Some el) (Some er) = (Some lpl, Some lpr, Some wl, Some wr)"
    by blast
  have lp': "stateL (outputLP ?s') \<noteq> None" "stateR (outputLP ?s') \<noteq> None"
    unfolding process_sample_outputLP el er os by simp_all
  \<comment> \<open>early taps, pre-delay, input filter\<close>
  have taps': "\<forall>d \<in> set (earlyDelays ?s'). tapOK d" "\<forall>d \<in> set (earlyDelaysR ?s'). tapOK d"
    unfolding process_sample_front frontEnd_state
    using earlyBank_OK [OF taps(1) pd] earlyBank_OK [OF taps(2) pd] by simp_all
  have apf': "\<forall>a \<in> set (diffusionA ?s'). apfOK a" "\<forall>a \<in> set (diffusionAR ?s'). apfOK a"
             "\<forall>a \<in> set (diffusionB ?s'). apfOK a" "\<forall>a \<in> set (diffusionBR ?s'). apfOK a"
    unfolding process_sample_front frontEnd_diffusion
    using cA cAR cB cBR by simp_all
  have pdi': "\<exists>j. preDelayIndex ?s' = Some j \<and> 0 \<le> j"
    unfolding process_sample_front frontEnd_state by (rule nextIndex_nonneg [OF i mx(1)])
  have pdb': "None \<notin> set (preDelayBuffer ?s')"
    unfolding process_sample_front frontEnd_state hps processOnePoleHP_Some
    by (rule buf_set_keeps_numbers [OF pdb]) simp
  have mx': "0 < maxPreDelay ?s'" "maxPreDelay ?s' \<le> int (length (preDelayBuffer ?s'))"
    "\<lfloor>(preDelayMs (params ?s') / 1000) * sr\<rfloor> \<le> maxPreDelay ?s'"
    unfolding process_sample_front frontEnd_state process_sample_frame
    using mx pdt by simp_all
  have hp': "stateL (inputHP ?s') \<noteq> None" "stateR (inputHP ?s') \<noteq> None"
    unfolding process_sample_frame hps processOnePoleHP_Some by simp_all
  have fb': "fdnFeedback ?s' \<noteq> None" unfolding process_sample_frame by (rule fb)
  have len': "length (fdnLines ?s') = 8" unfolding process_sample_length by (rule len)
  have "wetReady ?s'"
    unfolding wetReady_def using len' lines' taps' lp' by simp
  then show ?thesis
    unfolding engineOK_def using lines' apf' pdi' mx' pdb' hp' fb' by simp
qed

subsection \<open>Blocks keep the engine sound\<close>

lemma engineOK_lfos [simp]: "engineOK sr (s\<lparr>lfos := x\<rparr>) = engineOK sr s"
  by (simp add: engineOK_def wetReady_def)

lemma process_sample_inRange:
  assumes "engineOK sr s"
  shows "inRange (snd (process_sample sr s (Some x) (Some y)))"
proof -
  from assms have wet: "wetReady s"
    and hp: "stateL (inputHP s) \<noteq> None" "stateR (inputHP s) \<noteq> None"
    by (simp_all add: engineOK_def)
  from hp obtain stl str where "stateL (inputHP s) = Some stl" "stateR (inputHP s) = Some str"
    by auto
  from process_sample_number [OF wet this, of sr x y] obtain wl wr where
    "snd (process_sample sr s (Some x) (Some y)) =
           (Some (max (- 1) (min 1 ((x - stl) * (1 - mix (params s)) + wl * mix (params s)))),
            Some (max (- 1) (min 1 ((y - str) * (1 - mix (params s)) + wr * mix (params s)))))"
    by blast
  then show ?thesis by (simp add: inRange_def)
qed

lemma process_loop_OK:
  assumes "engineOK sr s" "\<forall>p \<in> set ins. fst p \<noteq> None \<and> snd p \<noteq> None"
  shows "engineOK sr (fst (process_loop sr s ins)) \<and>
         length (snd (process_loop sr s ins)) = length ins \<and>
         (\<forall>p \<in> set (snd (process_loop sr s ins)). inRange p)"
  using assms
proof (induction ins arbitrary: s)
  case Nil
  then show ?case by simp
next
  case (Cons p ps)
  from Cons.prems(2) obtain x y where p: "fst p = Some x" "snd p = Some y" by auto
  note ok = process_sample_OK [OF Cons.prems(1), of x y]
  note r = process_sample_inRange [OF Cons.prems(1), of x y]
  from Cons.prems(2) have "\<forall>p \<in> set ps. fst p \<noteq> None \<and> snd p \<noteq> None" by simp
  from Cons.IH [OF ok this] r show ?case
    unfolding process_loop_Cons p by simp
qed

lemma process_OK:
  assumes "engineOK sr s" "length inL \<le> length (case others of [] \<Rightarrow> inL | r # _ \<Rightarrow> r)"
  shows "engineOK sr (fst (process sr (inL # others) s)) \<and>
         (\<exists>out. snd (process sr (inL # others) s) = Some out \<and> length out = length inL \<and>
                (\<forall>p \<in> set out. inRange p))"
proof -
  let ?inR = "case others of [] \<Rightarrow> inL | r # _ \<Rightarrow> r"
  let ?ins = "map (\<lambda>i. (nth_opt inL i, nth_opt ?inR i)) [0..<length inL]"
  have ok: "engineOK sr (s\<lparr>lfos := updateLFOs (length inL) (lfos s)\<rparr>)"
    using assms(1) by simp
  have "\<forall>p \<in> set ?ins. fst p \<noteq> None \<and> snd p \<noteq> None"
    using assms(2) by (auto simp: nth_opt_def)
  from process_loop_OK [OF ok this] show ?thesis
    unfolding process_Cons by simp
qed

lemma run_blocks_OK:
  assumes "engineOK sr s" "length inL \<le> length (case others of [] \<Rightarrow> inL | r # _ \<Rightarrow> r)"
  shows "engineOK sr (run_blocks sr (inL # others) n s)"
  using assms(1)
proof (induction n arbitrary: s)
  case 0
  then show ?case by simp
next
  case (Suc n)
  from process_OK [OF Suc.prems assms(2)] have "engineOK sr (fst (process sr (inL # others) s))"
    by simp
  from Suc.IH [OF this] show ?case by simp
qed

subsection \<open>The parameter update and the constructor\<close>

lemma sum_list_pos_int:
  fixes xs :: "int list"
  assumes "\<forall>x \<in> set xs. 0 < x" "xs \<noteq> []"
  shows "0 < sum_list xs"
  using assms
proof (induction xs)
  case Nil
  then show ?case by simp
next
  case (Cons x xs)
  have "0 \<le> sum_list xs" using Cons.prems(1) by (intro sum_list_nonneg) auto
  moreover have "0 < x" using Cons.prems(1) by simp
  ultimately show ?case by simp
qed

lemma avgDelaySeconds_pos:
  assumes "\<forall>l \<in> set ls. 0 < line.size_smp l" "ls \<noteq> []" "0 < sr"
  shows "\<exists>a. avgDelaySeconds sr ls = Some a \<and> 0 < a"
proof -
  have "0 < sum_list (map line.size_smp ls)"
    using assms(1,2) by (intro sum_list_pos_int) auto
  then show ?thesis
    using assms(2,3) by (simp add: avgDelaySeconds_def foldl_size_sum)
qed

lemma upd_apfOK:
  assumes "updateInternalParams sr rnd s = Inr s'"
  shows "(\<forall>a \<in> set (diffusionA s'). apfOK a) = (\<forall>a \<in> set (diffusionA s). apfOK a)"
    "(\<forall>a \<in> set (diffusionAR s'). apfOK a) = (\<forall>a \<in> set (diffusionAR s). apfOK a)"
    "(\<forall>a \<in> set (diffusionB s'). apfOK a) = (\<forall>a \<in> set (diffusionB s). apfOK a)"
    "(\<forall>a \<in> set (diffusionBR s'). apfOK a) = (\<forall>a \<in> set (diffusionBR s). apfOK a)"
  using assms
  by (auto simp: updateInternalParams_def Let_def apfOK_def split: sum.splits)

lemma upd_states:
  assumes upd: "updateInternalParams sr rnd s = Inr s'"
    and "\<forall>l \<in> set (fdnLines s). dampState l \<noteq> None \<and> hpState l \<noteq> None"
  shows "\<forall>l \<in> set (fdnLines s'). dampState l \<noteq> None \<and> hpState l \<noteq> None"
proof -
  from upd obtain md where md: "selectMode (mode (params s)) = Inr md"
    by (rule updateInternalParams_Inr)
  note u = upd_lines [OF upd md]
  have "None \<notin> set (map dampState (fdnLines s))" "None \<notin> set (map hpState (fdnLines s))"
    using assms(2) by force+
  then have "None \<notin> set (map dampState (fdnLines s'))" "None \<notin> set (map hpState (fdnLines s'))"
    unfolding u by simp_all
  then show ?thesis by force
qed

text \<open>The parameter update keeps a sound engine sound when every new line length fits the
  line's buffer.\<close>

lemma upd_engineOK:
  assumes upd: "updateInternalParams sr rnd s = Inr s'"
    and md: "selectMode (mode (params s)) = Inr md"
    and ok: "engineOK sr s" and sr: "0 < sr"
    and fit: "\<forall>l \<in> set (fdnLines s).
               0 < \<lfloor>real_of_int (baseSize l) * ((0.3 + size_prm (params s) * 1.7) * sizeScale md)\<rfloor> \<and>
               \<lfloor>real_of_int (baseSize l) * ((0.3 + size_prm (params s) * 1.7) * sizeScale md)\<rfloor>
                 \<le> int (length (line.buffer l))"
  shows "engineOK sr s'"
proof -
  note f = upd_frame_rest [OF upd]
  from ok have wet: "wetReady s"
    and st: "\<forall>l \<in> set (fdnLines s). dampState l \<noteq> None \<and> hpState l \<noteq> None"
    and apf: "\<forall>a \<in> set (diffusionA s). apfOK a" "\<forall>a \<in> set (diffusionAR s). apfOK a"
             "\<forall>a \<in> set (diffusionB s). apfOK a" "\<forall>a \<in> set (diffusionBR s). apfOK a"
    and rest: "\<exists>i. preDelayIndex s = Some i \<and> 0 \<le> i"
      "0 < maxPreDelay s" "maxPreDelay s \<le> int (length (preDelayBuffer s))"
      "None \<notin> set (preDelayBuffer s)"
      "\<lfloor>(preDelayMs (params s) / 1000) * sr\<rfloor> \<le> maxPreDelay s"
      "stateL (inputHP s) \<noteq> None" "stateR (inputHP s) \<noteq> None"
    by (simp_all add: engineOK_def)
  from wet have len: "length (fdnLines s) = 8"
    and lines: "\<forall>l \<in> set (fdnLines s). lineOK l"
    and taps: "\<forall>d \<in> set (earlyDelays s). tapOK d" "\<forall>d \<in> set (earlyDelaysR s). tapOK d"
    and lp: "stateL (outputLP s) \<noteq> None" "stateR (outputLP s) \<noteq> None"
    by (simp_all add: wetReady_def)
  have "\<forall>l \<in> set (fdnLines s). line.index l \<noteq> None \<and> None \<notin> set (line.buffer l) \<and>
               0 < \<lfloor>real_of_int (baseSize l) * ((0.3 + size_prm (params s) * 1.7) * sizeScale md)\<rfloor> \<and>
               \<lfloor>real_of_int (baseSize l) * ((0.3 + size_prm (params s) * 1.7) * sizeScale md)\<rfloor>
                 \<le> int (length (line.buffer l))"
    using lines fit by (simp add: lineOK_def)
  from upd_lineOK [OF upd md this] have lines': "\<forall>l \<in> set (fdnLines s'). lineOK l" .
  have len': "length (fdnLines s') = 8" using upd_length_fdnLines [OF upd] len by simp
  have wet': "wetReady s'"
    unfolding wetReady_def using len' lines' taps lp f by simp
  note st' = upd_states [OF upd st]
  have pos: "\<forall>l \<in> set (fdnLines s'). 0 < line.size_smp l" using lines' by (simp add: lineOK_def)
  have ne: "fdnLines s' \<noteq> []" using len' by auto
  from avgDelaySeconds_pos [OF pos ne sr] obtain a where
    a: "avgDelaySeconds sr (fdnLines s') = Some a" "0 < a" by blast
  have fb: "fdnFeedback s' \<noteq> None"
    unfolding upd_fdnFeedback [OF upd] feedbackGain_by_sign [OF a] by (simp del: not_None_eq)
  show ?thesis
    unfolding engineOK_def
    using wet' st' apf rest fb f by (simp add: upd_apfOK [OF upd])
qed

lemma engineOK_params:
  assumes "engineOK sr s" "\<lfloor>(preDelayMs p / 1000) * sr\<rfloor> \<le> maxPreDelay s"
  shows "engineOK sr (s\<lparr>params := p\<rparr>)"
  using assms by (simp add: engineOK_def wetReady_def)

text \<open>A message whose mode is valid, whose pre-delay fits the pre-delay buffer and whose
  line lengths fit the line buffers leaves a sound engine sound.\<close>

lemma onmessage_OK:
  assumes ok: "engineOK sr s" and sr: "0 < sr"
    and md: "selectMode (mode (foldl assign1 (params s) msg)) = Inr md"
    and pd: "\<lfloor>(preDelayMs (foldl assign1 (params s) msg) / 1000) * sr\<rfloor> \<le> maxPreDelay s"
    and fit: "\<forall>l \<in> set (fdnLines s).
               0 < \<lfloor>real_of_int (baseSize l) *
                     ((0.3 + size_prm (foldl assign1 (params s) msg) * 1.7) * sizeScale md)\<rfloor> \<and>
               \<lfloor>real_of_int (baseSize l) *
                     ((0.3 + size_prm (foldl assign1 (params s) msg) * 1.7) * sizeScale md)\<rfloor>
                 \<le> int (length (line.buffer l))"
  shows "engineOK sr (onmessage sr rnd msg s)"
proof -
  let ?s1 = "s\<lparr>params := foldl assign1 (params s) msg\<rparr>"
  have md1: "selectMode (mode (params ?s1)) = Inr md" using md by simp
  note upd = updateInternalParams_total [OF md1, of sr rnd]
  have ok1: "engineOK sr ?s1" by (rule engineOK_params [OF ok pd])
  have fit1: "\<forall>l \<in> set (fdnLines ?s1).
               0 < \<lfloor>real_of_int (baseSize l) * ((0.3 + size_prm (params ?s1) * 1.7) * sizeScale md)\<rfloor> \<and>
               \<lfloor>real_of_int (baseSize l) * ((0.3 + size_prm (params ?s1) * 1.7) * sizeScale md)\<rfloor>
                 \<le> int (length (line.buffer l))"
    using fit by simp
  from upd_engineOK [OF upd md1 ok1 sr fit1] show ?thesis
    by (simp add: onmessage_def Let_def)
qed

lemma newApf_OK: "0 < sz \<Longrightarrow> apfOK (newApf sz g ph)"
  by (simp add: newApf_def apfOK_def newFloat32Array_def)

lemma initial_apfOK:
  "\<forall>a \<in> set (diffusionA (initialEngine sr rnd)). apfOK a"
  "\<forall>a \<in> set (diffusionAR (initialEngine sr rnd)). apfOK a"
  "\<forall>a \<in> set (diffusionB (initialEngine sr rnd)). apfOK a"
  "\<forall>a \<in> set (diffusionBR (initialEngine sr rnd)). apfOK a"
  by (simp_all add: initialEngine_def diffusionADelays_def diffusionBDelays_def newApf_OK)

lemma initial_lineOK:
  "\<forall>l \<in> set (fdnLines (initialEngine sr rnd)). lineOK l \<and> dampState l \<noteq> None \<and> hpState l \<noteq> None"
  by (simp add: initial_fdnLines fdnBaseSizes_def lineOK_def newFloat32Array_def)

lemma initialEngine_OK: "engineOK 48000 (initialEngine 48000 rnd)"
proof -
  have "wetReady (initialEngine 48000 rnd)"
    unfolding wetReady_def
    using initial_lineOK [of 48000 rnd] initial_taps [of rnd]
    by (simp add: initial_fdnLines fdnBaseSizes_def) (simp add: initialEngine_def)
  moreover have "(\<exists>i. preDelayIndex (initialEngine 48000 rnd) = Some i \<and> 0 \<le> i) \<and>
     0 < maxPreDelay (initialEngine 48000 rnd) \<and>
     maxPreDelay (initialEngine 48000 rnd) \<le> int (length (preDelayBuffer (initialEngine 48000 rnd))) \<and>
     None \<notin> set (preDelayBuffer (initialEngine 48000 rnd)) \<and>
     \<lfloor>(preDelayMs (params (initialEngine 48000 rnd)) / 1000) * 48000\<rfloor> \<le> maxPreDelay (initialEngine 48000 rnd) \<and>
     stateL (inputHP (initialEngine 48000 rnd)) \<noteq> None \<and> stateR (inputHP (initialEngine 48000 rnd)) \<noteq> None \<and>
     fdnFeedback (initialEngine 48000 rnd) \<noteq> None"
    by (simp add: initialEngine_def defaultParams_def newFloat32Array_def)
  ultimately show ?thesis
    unfolding engineOK_def using initial_lineOK [of 48000 rnd] initial_apfOK [of 48000 rnd] by simp
qed

lemma engine48k_OK: "engineOK 48000 engine48k"
proof -
  let ?s = "initialEngine 48000 (\<lambda>k. 1 / 2)"
  have p: "size_prm (params ?s) = 0.7" by (simp add: initialEngine_def defaultParams_def)
  have "\<forall>l \<in> set (fdnLines ?s).
               0 < \<lfloor>real_of_int (baseSize l) * ((0.3 + size_prm (params ?s) * 1.7) * sizeScale (modes ! 0))\<rfloor> \<and>
               \<lfloor>real_of_int (baseSize l) * ((0.3 + size_prm (params ?s) * 1.7) * sizeScale (modes ! 0))\<rfloor>
                 \<le> int (length (line.buffer l))"
    unfolding p by (simp add: initial_fdnLines fdnBaseSizes_def newFloat32Array_def modes_def)
  from upd_engineOK [OF engine48k_upd initial_mode initialEngine_OK _ this] show ?thesis by simp
qed

text \<open>
  With the parameters of the constructor every line fits its buffer, and the engine
  constructed at 48 kHz then answers every block of numbers, after any number of earlier
  blocks, with samples that are numbers in \<open>[-1, 1]\<close> (in exact arithmetic, as above).
\<close>

theorem default_engine_output_in_range:
  assumes "length inL \<le> length inR"
  shows "\<exists>out. snd (process 48000 [inL, inR] (run_blocks 48000 [inL, inR] n engine48k)) = Some out \<and>
           length out = length inL \<and> (\<forall>p \<in> set out. inRange p)"
proof -
  have len: "length inL \<le> length (case [inR] of [] \<Rightarrow> inL | r # _ \<Rightarrow> r)" using assms by simp
  note ok = run_blocks_OK [OF engine48k_OK len, of n]
  from process_OK [OF ok len] show ?thesis by simp
qed

end
